theory Spec2Isabelle
  imports Complex_Main
begin

section \<open>Texts and byte buffers\<close>

text \<open>
  Both scripts handle byte buffers (\<^verbatim>\<open>bytes\<close>) and texts (\<^verbatim>\<open>str\<close>). A byte buffer is a
  list of \<^typ>\<open>char\<close> (one \<^typ>\<open>char\<close> per byte). A text is represented by its UTF-8
  encoding, so that \<^verbatim>\<open>b.decode('utf-8')\<close> is the identity on the representation when
  the bytes are well-formed UTF-8 and raises \<^verbatim>\<open>UnicodeDecodeError\<close> otherwise. Equality,
  concatenation and substring search on texts coincide with the same operations on their
  encodings, because UTF-8 is prefix-free and self-synchronising.
\<close>

type_synonym bytes = "char list"
type_synonym str = "char list"

text \<open>
  The exceptions the two scripts can meet. \<open>SystemExit\<close> is what \<^verbatim>\<open>sys.exit\<close> raises; it
  is the only one that is not an instance of \<^verbatim>\<open>Exception\<close>.
\<close>

datatype net_error = URLError | HTTPError nat | Timeout

datatype exn =
    SystemExit nat
  | FileNotFoundError
  | CalledProcessError
  | UnicodeDecodeError
  | ValueError
  | AttributeError
  | TypeError
  | ParseError
  | RequestException
  | OverflowError
  | ZeroDivisionError
  | NetError net_error

fun is_Exception :: "exn \<Rightarrow> bool" where
  "is_Exception (SystemExit _) = False"
| "is_Exception _ = True"

subsection \<open>\<^verbatim>\<open>bytes.find(sub, start)\<close>, slicing and \<^verbatim>\<open>sub in s\<close>\<close>

text \<open>
  \<open>find_at sub s i\<close> scans \<open>s\<close> from its head, \<open>i\<close> being the index of that head in the
  whole buffer, and gives the index of the first position where \<open>sub\<close> starts.
\<close>

fun find_at :: "'a list \<Rightarrow> 'a list \<Rightarrow> nat \<Rightarrow> nat option" where
  "find_at sub [] i = (if sub = [] then Some i else None)"
| "find_at sub (x # xs) i =
     (if take (length sub) (x # xs) = sub then Some i else find_at sub xs (Suc i))"

text \<open>
  \<^verbatim>\<open>s.find(sub, start)\<close> for \<open>start \<ge> 0\<close>: the lowest index \<open>\<ge> start\<close> where \<open>sub\<close> occurs,
  \<open>None\<close> standing for Python's \<open>-1\<close>.
\<close>

definition py_find :: "'a list \<Rightarrow> 'a list \<Rightarrow> nat \<Rightarrow> nat option" where
  "py_find s sub start =
     (if start \<le> length s then find_at sub (drop start s) start else None)"

text \<open>\<^verbatim>\<open>s[a:b]\<close> for \<open>0 \<le> a\<close> and \<open>0 \<le> b\<close>.\<close>

definition slice :: "'a list \<Rightarrow> nat \<Rightarrow> nat \<Rightarrow> 'a list" where
  "slice s a b = take (b - a) (drop a s)"

text \<open>\<^verbatim>\<open>sub in s\<close>.\<close>

definition contains :: "'a list \<Rightarrow> 'a list \<Rightarrow> bool" where
  "contains sub s = (find_at sub s 0 \<noteq> None)"

subsection \<open>Strict UTF-8 decoding\<close>

definition byte :: "char \<Rightarrow> nat" where
  "byte c = of_char c"

definition cont :: "char \<Rightarrow> bool" where
  "cont c = (0x80 \<le> byte c \<and> byte c \<le> 0xBF)"

text \<open>
  Length of the well-formed UTF-8 sequence at the head of the buffer, \<open>0\<close> when the head is
  not the start of one (stray continuation byte, overlong form, surrogate, code point beyond
  U+10FFFF, truncated sequence): the table of well-formed byte sequences of the Unicode
  standard, which the strict decoder of Python follows.
\<close>

definition utf8_seq_len :: "bytes \<Rightarrow> nat" where
  "utf8_seq_len bs =
     (case bs of
        [] \<Rightarrow> 0
      | a # r \<Rightarrow>
          if byte a < 0x80 then 1
          else if 0xC2 \<le> byte a \<and> byte a \<le> 0xDF then
            (case r of b # _ \<Rightarrow> if cont b then 2 else 0 | _ \<Rightarrow> 0)
          else if 0xE0 \<le> byte a \<and> byte a \<le> 0xEF then
            (case r of
               b # c # _ \<Rightarrow>
                 if cont b \<and> cont c
                    \<and> (byte a = 0xE0 \<longrightarrow> 0xA0 \<le> byte b)
                    \<and> (byte a = 0xED \<longrightarrow> byte b \<le> 0x9F)
                 then 3 else 0
             | _ \<Rightarrow> 0)
          else if 0xF0 \<le> byte a \<and> byte a \<le> 0xF4 then
            (case r of
               b # c # d # _ \<Rightarrow>
                 if cont b \<and> cont c \<and> cont d
                    \<and> (byte a = 0xF0 \<longrightarrow> 0x90 \<le> byte b)
                    \<and> (byte a = 0xF4 \<longrightarrow> byte b \<le> 0x8F)
                 then 4 else 0
             | _ \<Rightarrow> 0)
          else 0)"

function valid_utf8 :: "bytes \<Rightarrow> bool" where
  "valid_utf8 bs =
     (if bs = [] then True
      else if utf8_seq_len bs = 0 then False
      else valid_utf8 (drop (utf8_seq_len bs) bs))"
  by pat_completeness auto
termination
  by (relation "measure length") auto

declare valid_utf8.simps [simp del]

text \<open>\<^verbatim>\<open>b.decode('utf-8')\<close>.\<close>

definition decode_utf8 :: "bytes \<Rightarrow> exn + str" where
  "decode_utf8 b = (if valid_utf8 b then Inr b else Inl UnicodeDecodeError)"

section \<open>download\_esd.py: the raw scan of the archive\<close>

text \<open>
  The last block of \<^verbatim>\<open>extract_xml_from_cab\<close>, once the archive has been read into
  \<open>cab_data\<close>. \<open>None\<close>: a marker is missing and control falls through to the final
  \<^verbatim>\<open>raise ValueError\<close>. \<open>Some r\<close>: the \<^verbatim>\<open>return\<close> statement is reached and \<open>r\<close> is what
  the decoding of the slice gives, a text or \<^verbatim>\<open>UnicodeDecodeError\<close>.
\<close>

definition raw_scan :: "bytes \<Rightarrow> (exn + str) option" where
  "raw_scan cab_data =
     (case py_find cab_data ''<?xml'' 0 of
        None \<Rightarrow> None
      | Some xml_start \<Rightarrow>
          (case py_find cab_data ''</Products>'' xml_start of
             None \<Rightarrow> None
           | Some xml_end0 \<Rightarrow>
               let xml_end = xml_end0 + length ''</Products>''
               in Some (decode_utf8 (slice cab_data xml_start xml_end))))"


section \<open>download\_esd.py: the host, its tools and the file system\<close>

text \<open>
  What \<^verbatim>\<open>subprocess.run([tool, ...], check=True)\<close> meets: the executable is not on the
  host (\<^verbatim>\<open>FileNotFoundError\<close>), or it runs and exits with a return code, having written
  \<^verbatim>\<open>products.xml\<close> into the output directory (\<open>Some\<close> of its bytes) or not.
\<close>

datatype tool_run = NotInstalled | Exited nat "bytes option"

datatype extraction = Cabextract | Tar | SevenZip | RawScan

text \<open>What \<^verbatim>\<open>requests.get(url, stream=True)\<close> followed by the chunk loop meets: the request
  fails before the target file is opened, the stream breaks after some bytes were written,
  or the whole body arrives.\<close>

datatype fetch_result = ConnectError | StreamError bytes | Fetched bytes

text \<open>The tree \<^verbatim>\<open>ET.fromstring\<close> builds, with what the script reads of it: tag, \<^verbatim>\<open>.text\<close>
  (\<^verbatim>\<open>None\<close> for an element without text) and children in document order.\<close>

datatype element = Element (tag: str) (text_of: "str option") (children: "element list")

text \<open>
  Everything outside the script. \<open>which\<close>: whether \<^verbatim>\<open>which name\<close> exits with \<open>0\<close>.
  \<open>run_tool\<close>: the run of an extraction tool on the archive's bytes. \<open>tmp_name\<close>: the
  directory and random stem \<^verbatim>\<open>NamedTemporaryFile\<close> picks. \<open>fetch\<close>: the transport.
  \<open>xml_fromstring\<close>: the XML parser of the standard library (\<open>None\<close>: \<^verbatim>\<open>ParseError\<close>).
  \<open>py_int\<close>: the builtin \<^verbatim>\<open>int\<close> on a text (\<open>None\<close>: \<^verbatim>\<open>ValueError\<close>); which texts it
  accepts (Unicode digits, underscores, the digit-count limit) belongs to the interpreter.
  \<open>wimlib_export\<close>: the converter run on the bytes of \<^verbatim>\<open>win.esd\<close>, writing \<^verbatim>\<open>win.wim\<close>.
\<close>

record host =
  which :: "string \<Rightarrow> bool"
  run_tool :: "extraction \<Rightarrow> bytes option \<Rightarrow> tool_run"
  tmp_name :: string
  fetch :: "string \<Rightarrow> fetch_result"
  xml_fromstring :: "str \<Rightarrow> element option"
  py_int :: "str \<Rightarrow> int option"
  wimlib_export :: "bytes option \<Rightarrow> tool_run"

text \<open>The \<open>found\<close> dictionary: \<^verbatim>\<open>'url'\<close> is the text of \<^verbatim>\<open>FilePath\<close> (possibly
  \<^verbatim>\<open>None\<close>), \<^verbatim>\<open>'size'\<close> the float computed by \<^verbatim>\<open>int(...) / (1024**3)\<close>, kept as the
  rational number it is.\<close>

record found =
  url :: "str option"
  size_gb :: rat

text \<open>The observable state of a run: the files, the extraction methods invoked so far, the
  calls of \<^verbatim>\<open>download_file\<close> (URL and target), and the \<open>found\<close> variable of \<^verbatim>\<open>main\<close>.\<close>

record state =
  files :: "string \<rightharpoonup> bytes"
  attempts :: "extraction list"
  downloads :: "(str option \<times> string) list"
  resolved :: "found option"

subsection \<open>\<^verbatim>\<open>check_tools\<close>\<close>

definition check_tools :: "host \<Rightarrow> exn + bool" where
  "check_tools h =
     (let has_cabextract = which h ''cabextract'';
          has_tar = which h ''tar''
      in if \<not> has_cabextract \<and> \<not> has_tar then Inl (SystemExit 1)
         else
           let has_wimlib = which h ''wimlib-imagex''
           in if \<not> has_wimlib then Inl (SystemExit 1) else Inr True)"

subsection \<open>\<^verbatim>\<open>download_file\<close>\<close>

text \<open>\<^verbatim>\<open>requests.get\<close> runs before the target is opened for writing, so a request that
  fails leaves the file system as it was; \<^verbatim>\<open>requests.get(None)\<close> fails that way too.\<close>

definition download_file :: "host \<Rightarrow> str option \<Rightarrow> string \<Rightarrow> state \<Rightarrow> exn option \<times> state" where
  "download_file h u filename s =
     (let s1 = s\<lparr>downloads := downloads s @ [(u, filename)]\<rparr>
      in case u of
           None \<Rightarrow> (Some RequestException, s1)
         | Some a \<Rightarrow>
             (case fetch h a of
                ConnectError \<Rightarrow> (Some RequestException, s1)
              | StreamError part \<Rightarrow>
                  (Some RequestException, s1\<lparr>files := (files s1)(filename \<mapsto> part)\<rparr>)
              | Fetched b \<Rightarrow> (None, s1\<lparr>files := (files s1)(filename \<mapsto> b)\<rparr>)))"

subsection \<open>\<^verbatim>\<open>extract_xml_from_cab\<close>\<close>

text \<open>Text-mode reading translates \<^verbatim>\<open>\r\n\<close> and a lone \<^verbatim>\<open>\r\<close> to \<^verbatim>\<open>\n\<close>.\<close>

fun universal_newlines :: "str \<Rightarrow> str" where
  "universal_newlines (c # d # cs) =
     (if c = CHR 0x0D \<and> d = CHR 0x0A then CHR 0x0A # universal_newlines cs
      else if c = CHR 0x0D then CHR 0x0A # universal_newlines (d # cs)
      else c # universal_newlines (d # cs))"
| "universal_newlines [c] = [if c = CHR 0x0D then CHR 0x0A else c]"
| "universal_newlines [] = []"

text \<open>\<^verbatim>\<open>open(xml_path, 'r', encoding='utf-8').read()\<close> on a file holding the bytes \<open>b\<close>.\<close>

definition read_text :: "bytes \<Rightarrow> exn + str" where
  "read_text b = (if valid_utf8 b then Inr (universal_newlines b) else Inl UnicodeDecodeError)"

text \<open>
  The body of one \<^verbatim>\<open>try\<close> block. The temporary directory is shared by the three blocks, so
  its \<^verbatim>\<open>products.xml\<close> (\<open>tmpdir\<close>) is threaded through: a tool that exits with \<open>0\<close> without
  writing the file still finds the one an earlier tool left. Result \<open>Inl e\<close>: \<open>e\<close> is
  raised; \<open>Inr (Some xml)\<close>: the block returns \<open>xml\<close>; \<open>Inr None\<close>: control leaves the block.
\<close>

definition run_and_read :: "tool_run \<Rightarrow> bytes option \<Rightarrow> bytes option \<times> (exn + str option)" where
  "run_and_read r tmpdir =
     (case r of
        NotInstalled \<Rightarrow> (tmpdir, Inl FileNotFoundError)
      | Exited rc out \<Rightarrow>
          let tmpdir' = (case out of Some b \<Rightarrow> Some b | None \<Rightarrow> tmpdir)
          in if rc \<noteq> 0 then (tmpdir', Inl CalledProcessError)
             else (case tmpdir' of
                     None \<Rightarrow> (tmpdir', Inr None)
                   | Some b \<Rightarrow>
                       (tmpdir', case read_text b of Inl e \<Rightarrow> Inl e | Inr xml \<Rightarrow> Inr (Some xml))))"

text \<open>\<^verbatim>\<open>except (subprocess.CalledProcessError, FileNotFoundError): pass\<close>.\<close>

definition except_tool_errors :: "exn + 'a option \<Rightarrow> exn + 'a option" where
  "except_tool_errors r =
     (case r of
        Inl e \<Rightarrow> if e = CalledProcessError \<or> e = FileNotFoundError then Inr None else Inl e
      | Inr v \<Rightarrow> Inr v)"

text \<open>The function gives the methods it invoked, in order, and what it returns or raises.\<close>

definition extract_xml_from_cab :: "host \<Rightarrow> (string \<rightharpoonup> bytes) \<Rightarrow> string \<Rightarrow> extraction list \<times> (exn + str)" where
  "extract_xml_from_cab h fs cab_path =
     (let (d1, r1) = run_and_read (run_tool h Cabextract (fs cab_path)) None
      in case except_tool_errors r1 of
           Inl e \<Rightarrow> ([Cabextract], Inl e)
         | Inr (Some xml) \<Rightarrow> ([Cabextract], Inr xml)
         | Inr None \<Rightarrow>
      (let (d2, r2) = run_and_read (run_tool h Tar (fs cab_path)) d1
       in case except_tool_errors r2 of
            Inl e \<Rightarrow> ([Cabextract, Tar], Inl e)
          | Inr (Some xml) \<Rightarrow> ([Cabextract, Tar], Inr xml)
          | Inr None \<Rightarrow>
       (let (d3, r3) = run_and_read (run_tool h SevenZip (fs cab_path)) d2
        in case except_tool_errors r3 of
             Inl e \<Rightarrow> ([Cabextract, Tar, SevenZip], Inl e)
           | Inr (Some xml) \<Rightarrow> ([Cabextract, Tar, SevenZip], Inr xml)
           | Inr None \<Rightarrow>
               (case fs cab_path of
                  None \<Rightarrow> ([Cabextract, Tar, SevenZip, RawScan], Inl FileNotFoundError)
                | Some cab_data \<Rightarrow>
                    (case raw_scan cab_data of
                       Some r \<Rightarrow> ([Cabextract, Tar, SevenZip, RawScan], r)
                     | None \<Rightarrow> ([Cabextract, Tar, SevenZip, RawScan], Inl ValueError))))))"

subsection \<open>The catalog: \<^verbatim>\<open>findall\<close>, \<^verbatim>\<open>find\<close> and the matching loop\<close>

text \<open>\<^verbatim>\<open>Element.iter()\<close>: the element, then its descendants, in document order.\<close>

fun iter :: "element \<Rightarrow> element list" where
  "iter (Element t x cs) = Element t x cs # concat (map iter cs)"

text \<open>\<^verbatim>\<open>root.findall(".//" + t)\<close>: the descendants of the root with that tag, in document
  order, the root itself left out.\<close>

definition findall :: "element \<Rightarrow> str \<Rightarrow> element list" where
  "findall root_elem t = filter (\<lambda>e. tag e = t) (concat (map iter (children root_elem)))"

text \<open>\<^verbatim>\<open>elem.find(t)\<close>: the first child with that tag.\<close>

definition find_child :: "element \<Rightarrow> str \<Rightarrow> element option" where
  "find_child e t = find (\<lambda>c. tag c = t) (children e)"

text \<open>\<^verbatim>\<open>x is not None and x.text == v\<close>.\<close>

definition has_text :: "element option \<Rightarrow> str \<Rightarrow> bool" where
  "has_text x v = (case x of None \<Rightarrow> False | Some c \<Rightarrow> text_of c = Some v)"

text \<open>The condition of the \<^verbatim>\<open>if\<close> in the loop.\<close>

definition is_enterprise_n :: "element \<Rightarrow> bool" where
  "is_enterprise_n file_elem =
     (let lang = find_child file_elem ''LanguageCode'';
          edition = find_child file_elem ''Edition'';
          arch = find_child file_elem ''Architecture''
      in has_text lang ''en-us'' \<and> has_text edition ''EnterpriseN'' \<and> has_text arch ''x64'')"

text \<open>
  \<^verbatim>\<open>a / b\<close> on two integers is a float: the quotient correctly rounded to IEEE 754
  binary64 (53 significant bits, ties to even, gradual underflow), \<^verbatim>\<open>ZeroDivisionError\<close>
  for \<open>b = 0\<close> and \<^verbatim>\<open>OverflowError\<close> when the rounded quotient is beyond the largest float.
  A finite float is a rational number, and the model keeps its value.
\<close>

text \<open>\<^verbatim>\<open>int.bit_length\<close> of a natural number.\<close>

function bit_length :: "int \<Rightarrow> nat" where
  "bit_length n = (if n \<le> 0 then 0 else Suc (bit_length (n div 2)))"
  by pat_completeness auto
termination
  by (relation "measure nat") auto

declare bit_length.simps [simp del]

text \<open>The \<open>e\<close> with \<open>2 ^ e \<le> |a / b| < 2 ^ (e + 1)\<close>, for \<open>a\<close> and \<open>b\<close> other than \<open>0\<close>: the
  difference of the bit lengths, or one less.\<close>

definition binary_exponent :: "int \<Rightarrow> int \<Rightarrow> int" where
  "binary_exponent a b =
     (let d = int (bit_length \<bar>a\<bar>) - int (bit_length \<bar>b\<bar>)
      in if (2::rat) powi d \<le> \<bar>of_int a / of_int b\<bar> then d else d - 1)"

text \<open>Rounding to the nearest integer, a tie going to the even one.\<close>

definition round_half_even :: "rat \<Rightarrow> int" where
  "round_half_even q =
     (let f = \<lfloor>q\<rfloor>; r = q - of_int f
      in if r < 1 / 2 then f
         else if 1 / 2 < r then f + 1
         else if even f then f else f + 1)"

text \<open>The spacing of the floats around the quotient is \<open>2 ^ (e - 52)\<close>, and \<open>2 ^ (- 1074)\<close>
  below the normal range; the quotient is rounded to a multiple of it.\<close>

definition py_truediv :: "int \<Rightarrow> int \<Rightarrow> exn + rat" where
  "py_truediv a b =
     (if b = 0 then Inl ZeroDivisionError
      else if a = 0 then Inr 0
      else
        let q = of_int a / of_int b;
            ulp = (2::rat) powi (max (binary_exponent a b) (- 1022) - 52);
            r = of_int (round_half_even (q / ulp)) * ulp
        in if 2 ^ 1024 \<le> \<bar>r\<bar> then Inl OverflowError else Inr r)"

text \<open>The dictionary display: \<^verbatim>\<open>.text\<close> of a missing child raises \<^verbatim>\<open>AttributeError\<close>,
  \<^verbatim>\<open>int(None)\<close> raises \<^verbatim>\<open>TypeError\<close>, \<^verbatim>\<open>int\<close> of a text that is no integer raises
  \<^verbatim>\<open>ValueError\<close>, and the division raises \<^verbatim>\<open>OverflowError\<close> when the size is too large
  for a float.\<close>

definition make_found :: "host \<Rightarrow> element \<Rightarrow> exn + found" where
  "make_found h file_elem =
     (case find_child file_elem ''FilePath'' of
        None \<Rightarrow> Inl AttributeError
      | Some fp \<Rightarrow>
          (case find_child file_elem ''Size'' of
             None \<Rightarrow> Inl AttributeError
           | Some sz \<Rightarrow>
               (case text_of sz of
                  None \<Rightarrow> Inl TypeError
                | Some t \<Rightarrow>
                    (case py_int h t of
                       None \<Rightarrow> Inl ValueError
                     | Some n \<Rightarrow>
                         (case py_truediv n (1024 ^ 3) of
                            Inl e \<Rightarrow> Inl e
                          | Inr g \<Rightarrow> Inr \<lparr>url = text_of fp, size_gb = g\<rparr>)))))"

text \<open>The \<^verbatim>\<open>for\<close> loop over the \<^verbatim>\<open>File\<close> elements, with its \<^verbatim>\<open>break\<close>; \<open>Inr None\<close> is
  \<open>found\<close> still being \<^verbatim>\<open>None\<close> when the loop ends.\<close>

fun find_loop :: "host \<Rightarrow> element list \<Rightarrow> exn + found option" where
  "find_loop h [] = Inr None"
| "find_loop h (file_elem # rest) =
     (if is_enterprise_n file_elem then
        (case make_found h file_elem of Inl e \<Rightarrow> Inl e | Inr f \<Rightarrow> Inr (Some f))
      else find_loop h rest)"

subsection \<open>\<^verbatim>\<open>main\<close>\<close>

definition cab_url :: string where
  "cab_url = ''https://go.microsoft.com/fwlink/?LinkId=2156292''"

text \<open>\<^verbatim>\<open>NamedTemporaryFile(suffix='.cab', delete=False)\<close>: the name ends with the suffix.\<close>

definition cab_path :: "host \<Rightarrow> string" where
  "cab_path h = tmp_name h @ ''.cab''"

text \<open>The \<^verbatim>\<open>try\<close> / \<^verbatim>\<open>finally\<close> block: extraction and parsing, then \<^verbatim>\<open>os.unlink\<close> whatever
  happened.\<close>

definition extract_and_parse :: "host \<Rightarrow> state \<Rightarrow> (exn + element) \<times> state" where
  "extract_and_parse h s =
     (let (ms, r) = extract_xml_from_cab h (files s) (cab_path h);
          parsed = (case r of
                      Inl e \<Rightarrow> Inl e
                    | Inr xml_content \<Rightarrow>
                        (case xml_fromstring h xml_content of
                           None \<Rightarrow> Inl ParseError
                         | Some root_elem \<Rightarrow> Inr root_elem))
      in (parsed, s\<lparr>attempts := attempts s @ ms, files := (files s)(cab_path h := None)\<rparr>))"

text \<open>The conversion at the end: \<^verbatim>\<open>subprocess.run\<close> without \<^verbatim>\<open>check\<close>, so that only a
  missing executable raises; the return code is printed, not raised.\<close>

definition convert :: "host \<Rightarrow> state \<Rightarrow> exn option \<times> state" where
  "convert h s =
     (case wimlib_export h (files s ''win.esd'') of
        NotInstalled \<Rightarrow> (Some FileNotFoundError, s)
      | Exited rc out \<Rightarrow>
          (None, case out of None \<Rightarrow> s | Some w \<Rightarrow> s\<lparr>files := (files s)(''win.wim'' \<mapsto> w)\<rparr>))"

text \<open>\<open>main h fs\<close> runs the script on host \<open>h\<close> from the file system \<open>fs\<close>: the exception
  that ends it (\<open>None\<close> when \<^verbatim>\<open>main\<close> returns) and the final state.\<close>

definition main :: "host \<Rightarrow> (string \<rightharpoonup> bytes) \<Rightarrow> exn option \<times> state" where
  "main h fs =
     (let s0 = \<lparr>files = fs, attempts = [], downloads = [], resolved = None\<rparr>
      in case check_tools h of
           Inl e \<Rightarrow> (Some e, s0)
         | Inr _ \<Rightarrow>
      (let s1 = s0\<lparr>files := (files s0)(cab_path h \<mapsto> [])\<rparr>
       in case download_file h (Some cab_url) (cab_path h) s1 of
            (Some e, s2) \<Rightarrow> (Some e, s2)
          | (None, s2) \<Rightarrow>
       (case extract_and_parse h s2 of
          (Inl e, s3) \<Rightarrow> (Some e, s3)
        | (Inr root_elem, s3) \<Rightarrow>
       (case find_loop h (findall root_elem ''File'') of
          Inl e \<Rightarrow> (Some e, s3)
        | Inr None \<Rightarrow> (Some (SystemExit 1), s3)
        | Inr (Some f) \<Rightarrow>
       (let s4 = s3\<lparr>resolved := Some f\<rparr>
        in case (if files s4 ''win.esd'' \<noteq> None then (None, s4)
                 else download_file h (url f) ''win.esd'' s4) of
             (Some e, s5) \<Rightarrow> (Some e, s5)
           | (None, s5) \<Rightarrow> convert h s5)))))"


section \<open>download\_iso.py: the heuristic resolver\<close>

subsection \<open>The two regular expressions\<close>

text \<open>
  \<^verbatim>\<open>re.findall\<close> scans the text from left to right; where the pattern matches it reports
  the match (its group, when the pattern has one) and goes on after it, elsewhere it moves
  one position on. A matcher gives the length of the match at the head of the text and
  what is reported.
\<close>

function findall_matches :: "(str \<Rightarrow> (nat \<times> str) option) \<Rightarrow> str \<Rightarrow> str list" where
  "findall_matches m s =
     (if s = [] then []
      else case m s of
             None \<Rightarrow> findall_matches m (tl s)
           | Some (n, g) \<Rightarrow> g # findall_matches m (drop (max 1 n) s))"
  by pat_completeness auto
termination
  by (relation "measure (\<lambda>(m, s). length s)") auto

declare findall_matches.simps [simp del]

text \<open>
  \<^verbatim>\<open>https://[^"]+\.iso\<close> at the head of the text: the literal, then the longest run of
  characters other than the double quote, given back until \<^verbatim>\<open>.iso\<close> follows; at least one
  character of the run stays before \<^verbatim>\<open>.iso\<close>. So the match ends with the last \<^verbatim>\<open>.iso\<close> of
  the run that starts at its index \<open>1\<close> or later.
\<close>

definition match_iso_url :: "str \<Rightarrow> (nat \<times> str) option" where
  "match_iso_url s =
     (if take 8 s = ''https://'' then
        (let run = takeWhile (\<lambda>c. c \<noteq> CHR 0x22) (drop 8 s)
         in case find (\<lambda>n. take 4 (drop n run) = ''.iso'') (rev [1..<length run - 3]) of
              None \<Rightarrow> None
            | Some n \<Rightarrow> Some (8 + n + 4, take (8 + n + 4) s))
      else None)"

text \<open>
  \<^verbatim>\<open>\d\<close> matches a decimal digit of Unicode. An ASCII digit is one byte of the encoding;
  any other decimal digit is a sequence of bytes from \<open>0x80\<close> on, and which sequences are
  decimal digits is the Unicode table of the interpreter: \<open>nd s\<close> is the number of bytes of
  the decimal digit encoded at the head of \<open>s\<close>, \<open>0\<close> when there is none.
\<close>

definition digit_width :: "(str \<Rightarrow> nat) \<Rightarrow> str \<Rightarrow> nat" where
  "digit_width nd s =
     (case s of
        [] \<Rightarrow> 0
      | c # _ \<Rightarrow>
          if 0x30 \<le> byte c \<and> byte c \<le> 0x39 then 1
          else if byte c < 0x80 then 0
          else if nd s \<le> length s \<and> (\<forall>b \<in> set (take (nd s) s). 0x80 \<le> byte b) then nd s
          else 0)"

text \<open>\<^verbatim>\<open>\d*\<close>, greedy.\<close>

function digit_run :: "(str \<Rightarrow> nat) \<Rightarrow> str \<Rightarrow> str" where
  "digit_run nd s =
     (if digit_width nd s = 0 then []
      else take (digit_width nd s) s @ digit_run nd (drop (digit_width nd s) s))"
  by pat_completeness auto
termination
  by (relation "measure (\<lambda>(nd, s). length s)") (auto simp: digit_width_def split: list.splits if_splits)

declare digit_run.simps [simp del]

text \<open>\<^verbatim>\<open>LinkID=(\d+)\<close> at the head of the text; the group is reported.\<close>

definition match_linkid :: "(str \<Rightarrow> nat) \<Rightarrow> str \<Rightarrow> (nat \<times> str) option" where
  "match_linkid nd s =
     (if take 7 s = ''LinkID='' then
        (let ds = digit_run nd (drop 7 s)
         in if ds = [] then None else Some (7 + length ds, ds))
      else None)"

subsection \<open>The network\<close>

text \<open>What the script reads of the response to a \<^verbatim>\<open>HEAD\<close> request: the final URL after
  redirections and the status.\<close>

record response =
  resp_url :: str
  status :: nat

text \<open>
  \<open>urlopen_get\<close>: \<^verbatim>\<open>urlopen\<close> of the request with the browser-like headers and
  \<^verbatim>\<open>response.read()\<close>, giving the body or the error raised. \<open>urlopen_head\<close>: \<^verbatim>\<open>urlopen\<close> of
  a \<^verbatim>\<open>HEAD\<close> request. Both with the timeout of 5 seconds, \<open>Timeout\<close> being one of the
  errors. A URL answers the same way each time it is asked during one run.
  \<open>decimal_width\<close>: the table of decimal digits described above.
\<close>

record web =
  urlopen_get :: "string \<Rightarrow> net_error + bytes"
  urlopen_head :: "string \<Rightarrow> net_error + response"
  decimal_width :: "str \<Rightarrow> nat"

subsection \<open>Stage 1: the API endpoints\<close>

definition api_endpoints :: "string list" where
  "api_endpoints =
     [''https://www.microsoft.com/en-us/evalcenter/api/products/getproducts'',
      ''https://www.microsoft.com/en-us/api/controls/contentinclude/html?pageId=cfa0e580-a81e-4a4b-a846-7b21bf4e2e5b&host=www.microsoft.com&segments=software-download,windows10ISO'',
      ''https://www.microsoft.com/en-us/software-download/windows10ISO/ajax'']"

definition fwlink :: "str \<Rightarrow> string" where
  "fwlink linkid = ''https://go.microsoft.com/fwlink/?LinkID='' @ linkid"

text \<open>The inner \<^verbatim>\<open>try\<close> body for one identifier: \<open>Inl\<close> an exception, \<open>Inr (Some u)\<close> the
  function returns \<open>u\<close>, \<open>Inr None\<close> control goes on.\<close>

definition check_linkid :: "web \<Rightarrow> str \<Rightarrow> exn + string option" where
  "check_linkid w linkid =
     (let test_url = fwlink linkid
      in case urlopen_head w test_url of
           Inl err \<Rightarrow> Inl (NetError err)
         | Inr resp \<Rightarrow> Inr (if contains ''.iso'' (resp_url resp) then Some test_url else None))"

text \<open>A bare \<^verbatim>\<open>except: continue\<close>.\<close>

definition except_all :: "exn + 'a option \<Rightarrow> 'a option" where
  "except_all r = (case r of Inl _ \<Rightarrow> None | Inr v \<Rightarrow> v)"

fun linkid_loop :: "web \<Rightarrow> str list \<Rightarrow> string option" where
  "linkid_loop w [] = None"
| "linkid_loop w (linkid # rest) =
     (case except_all (check_linkid w linkid) of
        Some u \<Rightarrow> Some u
      | None \<Rightarrow> linkid_loop w rest)"

text \<open>The outer \<^verbatim>\<open>try\<close> body for one endpoint.\<close>

definition check_endpoint :: "web \<Rightarrow> string \<Rightarrow> exn + string option" where
  "check_endpoint w endpoint =
     (case urlopen_get w endpoint of
        Inl err \<Rightarrow> Inl (NetError err)
      | Inr body \<Rightarrow>
          (case decode_utf8 body of
             Inl e \<Rightarrow> Inl e
           | Inr content \<Rightarrow>
               (case findall_matches match_iso_url content of
                  u # _ \<Rightarrow> Inr (Some u)
                | [] \<Rightarrow>
                    Inr (linkid_loop w
                           (findall_matches (match_linkid (decimal_width w)) content)))))"

text \<open>\<^verbatim>\<open>except Exception as e: continue\<close>: anything else goes on upwards.\<close>

definition except_Exception :: "exn + 'a option \<Rightarrow> exn + 'a option" where
  "except_Exception r =
     (case r of
        Inl e \<Rightarrow> if is_Exception e then Inr None else Inl e
      | Inr v \<Rightarrow> Inr v)"

fun endpoint_loop :: "web \<Rightarrow> string list \<Rightarrow> exn + string option" where
  "endpoint_loop w [] = Inr None"
| "endpoint_loop w (endpoint # rest) =
     (case except_Exception (check_endpoint w endpoint) of
        Inl e \<Rightarrow> Inl e
      | Inr (Some u) \<Rightarrow> Inr (Some u)
      | Inr None \<Rightarrow> endpoint_loop w rest)"

subsection \<open>Stage 2: the known CDN patterns\<close>

definition base_urls :: "string list" where
  "base_urls =
     [''https://software-static.download.prss.microsoft.com/sg/download/888969d5-f34g-4e03-ac9d-1f9786c66749/'',
      ''https://software-static.download.prss.microsoft.com/dbazure/'',
      ''https://software.download.prss.microsoft.com/sg/'']"

definition iso_names :: "string list" where
  "iso_names =
     [''19045.2006.220908-0225.22h2_release_svc_refresh_CLIENTENTERPRISEEVAL_OEMRET_x64FRE_en-us.iso'',
      ''Win10_22H2_EnterpriseEval_x64.iso'',
      ''Win10_22H2_English_x64.iso'',
      ''Win10_22H2_English_x64v1.iso'',
      ''SERVER_EVAL_x64FRE_en-us.iso'']"

text \<open>The \<^verbatim>\<open>try\<close> body for one guessed URL.\<close>

definition check_pattern :: "web \<Rightarrow> string \<Rightarrow> exn + string option" where
  "check_pattern w test_url =
     (case urlopen_head w test_url of
        Inl err \<Rightarrow> Inl (NetError err)
      | Inr resp \<Rightarrow> Inr (if status resp = 200 then Some test_url else None))"

fun iso_loop :: "web \<Rightarrow> string \<Rightarrow> string list \<Rightarrow> string option" where
  "iso_loop w base [] = None"
| "iso_loop w base (iso_name # rest) =
     (case except_all (check_pattern w (base @ iso_name)) of
        Some u \<Rightarrow> Some u
      | None \<Rightarrow> iso_loop w base rest)"

fun base_loop :: "web \<Rightarrow> string list \<Rightarrow> string list \<Rightarrow> string option" where
  "base_loop w [] isos = None"
| "base_loop w (base # rest) isos =
     (case iso_loop w base isos of
        Some u \<Rightarrow> Some u
      | None \<Rightarrow> base_loop w rest isos)"

subsection \<open>Stage 3 and the whole function\<close>

definition fallback_url :: string where
  "fallback_url =
     ''https://go.microsoft.com/fwlink/?LinkID=2195280&clcid=0x409&culture=en-us&country=US''"

definition get_windows_iso_url :: "web \<Rightarrow> exn + string" where
  "get_windows_iso_url w =
     (case endpoint_loop w api_endpoints of
        Inl e \<Rightarrow> Inl e
      | Inr (Some u) \<Rightarrow> Inr u
      | Inr None \<Rightarrow>
          (case base_loop w base_urls iso_names of
             Some u \<Rightarrow> Inr u
           | None \<Rightarrow> Inr fallback_url))"


section \<open>Notions used in the statements\<close>

text \<open>\<open>sub\<close> occurs in \<open>s\<close> at index \<open>k\<close>.\<close>

definition occurs_at :: "'a list \<Rightarrow> 'a list \<Rightarrow> nat \<Rightarrow> bool" where
  "occurs_at sub s k = (take (length sub) (drop k s) = sub)"

text \<open>
  The record of an entry, as the specification reads it: a field is the text of the first
  child with the field's tag, absent when there is no such child or it holds no text. A
  query is a triple of language code, edition and architecture, and an entry matches it
  when its three fields are present and equal to it, as strings.
\<close>

definition field :: "element \<Rightarrow> str \<Rightarrow> str option" where
  "field e t = (case filter (\<lambda>c. tag c = t) (children e) of [] \<Rightarrow> None | c # _ \<Rightarrow> text_of c)"

definition matches_query :: "str \<times> str \<times> str \<Rightarrow> element \<Rightarrow> bool" where
  "matches_query q e =
     (field e ''LanguageCode'' = Some (fst q)
      \<and> field e ''Edition'' = Some (fst (snd q))
      \<and> field e ''Architecture'' = Some (snd (snd q)))"

text \<open>The one query of the script.\<close>

definition script_query :: "str \<times> str \<times> str" where
  "script_query = (''en-us'', ''EnterpriseN'', ''x64'')"

text \<open>
  Positions in a document: the path \<open>[i, j, ...]\<close> leads from an element to its child \<open>i\<close>,
  from there to that child's child \<open>j\<close>, and so on. Document order is the order of the
  start tags in the text: a position comes before the positions below it, and before the
  positions that branch off to a later child; that is the lexicographic order of the
  paths.
\<close>

fun subtree_at :: "element \<Rightarrow> nat list \<Rightarrow> element option" where
  "subtree_at e [] = Some e"
| "subtree_at e (i # p) =
     (if i < length (children e) then subtree_at (children e ! i) p else None)"

definition before_in_document :: "nat list \<Rightarrow> nat list \<Rightarrow> bool" where
  "before_in_document p p' = ((p, p') \<in> lexord {(i, j). i < j})"

text \<open>A \<^verbatim>\<open>File\<close> entry for the query sits at the position \<open>p\<close> below the root.\<close>

definition entry_for_query :: "str \<times> str \<times> str \<Rightarrow> element \<Rightarrow> nat list \<Rightarrow> element \<Rightarrow> bool" where
  "entry_for_query q root_elem p e =
     (p \<noteq> [] \<and> subtree_at root_elem p = Some e \<and> tag e = ''File'' \<and> matches_query q e)"

section \<open>Example catalogs and hosts\<close>

text \<open>A \<^verbatim>\<open>File\<close> entry with the five children the script reads, all present.\<close>

definition file_entry :: "str \<Rightarrow> str \<Rightarrow> str \<Rightarrow> str \<Rightarrow> str \<Rightarrow> element" where
  "file_entry lang edition arch path sz =
     Element ''File'' None
       [Element ''LanguageCode'' (Some lang) [],
        Element ''Edition'' (Some edition) [],
        Element ''Architecture'' (Some arch) [],
        Element ''FilePath'' (Some path) [],
        Element ''Size'' (Some sz) []]"

text \<open>The catalog of the end-to-end scenario: one record, 4294967296 bytes.\<close>

definition scenario_xml :: str where
  "scenario_xml = ''<Products><File><LanguageCode>en-us</LanguageCode><Edition>EnterpriseN</Edition><Architecture>x64</Architecture><FilePath>https://example/x.esd</FilePath><Size>4294967296</Size></File></Products>''"

definition scenario_catalog :: element where
  "scenario_catalog =
     Element ''Products'' None
       [file_entry ''en-us'' ''EnterpriseN'' ''x64'' ''https://example/x.esd'' ''4294967296'']"

text \<open>Two records for the query with different URLs, after two records that differ from
  the query in the edition and in the case of the language code.\<close>

definition duplicate_catalog :: element where
  "duplicate_catalog =
     Element ''Products'' None
       [file_entry ''en-us'' ''Enterprise'' ''x64'' ''https://example/other.esd'' ''1073741824'',
        file_entry ''EN-US'' ''EnterpriseN'' ''x64'' ''https://example/upper.esd'' ''1073741824'',
        file_entry ''en-us'' ''EnterpriseN'' ''x64'' ''https://example/first.esd'' ''4294967296'',
        file_entry ''en-us'' ''EnterpriseN'' ''x64'' ''https://example/second.esd'' ''1073741824'']"

text \<open>A record of the Professional edition before a record of Enterprise N.\<close>

definition professional_catalog :: element where
  "professional_catalog =
     Element ''Products'' None
       [file_entry ''en-us'' ''Professional'' ''x64'' ''https://example/professional.esd'' ''4294967296'',
        file_entry ''en-us'' ''EnterpriseN'' ''x64'' ''https://example/enterprise-n.esd'' ''4294967296'']"

text \<open>A record for the query without \<^verbatim>\<open>FilePath\<close>, followed by a complete one.\<close>

definition no_path_entry :: element where
  "no_path_entry =
     Element ''File'' None
       [Element ''LanguageCode'' (Some ''en-us'') [],
        Element ''Edition'' (Some ''EnterpriseN'') [],
        Element ''Architecture'' (Some ''x64'') [],
        Element ''Size'' (Some ''4294967296'') []]"

definition no_path_catalog :: element where
  "no_path_catalog =
     Element ''Products'' None
       [no_path_entry,
        file_entry ''en-us'' ''EnterpriseN'' ''x64'' ''https://example/x.esd'' ''4294967296'']"

text \<open>\<^verbatim>\<open>int\<close> on the two size texts of the examples.\<close>

definition example_int :: "str \<Rightarrow> int option" where
  "example_int t =
     (if t = ''4294967296'' then Some 4294967296
      else if t = ''1073741824'' then Some 1073741824
      else None)"

text \<open>An archive in which \<^verbatim>\<open>cabextract\<close> finds the scenario's document. All tools are
  installed; the parser knows the scenario's document.\<close>

definition example_host :: host where
  "example_host =
     \<lparr>which = (\<lambda>t. True),
      run_tool = (\<lambda>m b. if m = Cabextract then Exited 0 (Some scenario_xml) else Exited 1 None),
      tmp_name = ''/tmp/tmp3k2a9x'',
      fetch = (\<lambda>u. if u = cab_url then Fetched ''MSCF-archive-bytes'' else Fetched ''esd-bytes''),
      xml_fromstring = (\<lambda>t. if t = scenario_xml then Some scenario_catalog else None),
      py_int = example_int,
      wimlib_export = (\<lambda>b. Exited 0 (Some ''wim-bytes''))\<rparr>"

text \<open>A host with the converter and \<^verbatim>\<open>7z\<close>, without \<^verbatim>\<open>cabextract\<close> and \<^verbatim>\<open>tar\<close>; \<^verbatim>\<open>7z\<close>
  extracts the scenario's document.\<close>

definition host_7z_only :: host where
  "host_7z_only =
     example_host
       \<lparr>which := (\<lambda>t. t = ''wimlib-imagex'' \<or> t = ''7z''),
        run_tool := (\<lambda>m b. if m = SevenZip then Exited 0 (Some scenario_xml) else NotInstalled)\<rparr>"

text \<open>A host with the converter and no extraction tool at all.\<close>

definition host_no_extractors :: host where
  "host_no_extractors =
     example_host
       \<lparr>which := (\<lambda>t. t = ''wimlib-imagex''),
        run_tool := (\<lambda>m b. NotInstalled)\<rparr>"

text \<open>A file system holding an archive without the markers at \<^verbatim>\<open>/tmp/a.cab\<close>.\<close>

definition example_files :: "string \<rightharpoonup> bytes" where
  "example_files = [''/tmp/a.cab'' \<mapsto> ''MSCF-archive-bytes'']"

text \<open>A working directory that already holds a \<^verbatim>\<open>win.esd\<close>.\<close>

definition files_with_esd :: "string \<rightharpoonup> bytes" where
  "files_with_esd = [''win.esd'' \<mapsto> ''earlier-esd-bytes'']"

section \<open>Notions and examples for the heuristic resolver\<close>

text \<open>The guessed URLs as the specification describes them: the cartesian product of
  the base paths and the file names, base path first.\<close>

definition candidates :: "string list \<Rightarrow> string list \<Rightarrow> string list" where
  "candidates bases names = concat (map (\<lambda>b. map (\<lambda>n. b @ n) names) bases)"

text \<open>A success status of HTTP: the class 2xx.\<close>

definition success_status :: "nat \<Rightarrow> bool" where
  "success_status st = (200 \<le> st \<and> st < 300)"

text \<open>The \<^verbatim>\<open>HEAD\<close> probe of a URL reports a success status.\<close>

definition reports_success :: "web \<Rightarrow> string \<Rightarrow> bool" where
  "reports_success w u =
     (case urlopen_head w u of Inl _ \<Rightarrow> False | Inr resp \<Rightarrow> success_status (status resp))"

text \<open>The \<^verbatim>\<open>HEAD\<close> probe of a URL answers with the status 200.\<close>

definition answers_200 :: "web \<Rightarrow> string \<Rightarrow> bool" where
  "answers_200 w u =
     (case urlopen_head w u of Inl _ \<Rightarrow> False | Inr resp \<Rightarrow> status resp = 200)"

text \<open>A byte of the encoding of a decimal digit: an ASCII digit, or a byte from \<open>0x80\<close>
  on.\<close>

definition digitish :: "char \<Rightarrow> bool" where
  "digitish c = ((0x30 \<le> byte c \<and> byte c \<le> 0x39) \<or> 0x80 \<le> byte c)"

text \<open>A network where every request times out or fails.\<close>

definition web_down :: web where
  "web_down =
     \<lparr>urlopen_get = (\<lambda>u. Inl Timeout),
      urlopen_head = (\<lambda>u. Inl URLError),
      decimal_width = (\<lambda>s. 0)\<rparr>"

text \<open>A network where the API endpoints answer 404 and two of the guessed URLs exist: the
  third name under the second base path, and the second name under the third base path.\<close>

definition web_cdn :: web where
  "web_cdn =
     \<lparr>urlopen_get = (\<lambda>u. Inl (HTTPError 404)),
      urlopen_head = (\<lambda>u.
        if u = ''https://software-static.download.prss.microsoft.com/dbazure/Win10_22H2_English_x64.iso''
           \<or> u = ''https://software.download.prss.microsoft.com/sg/Win10_22H2_EnterpriseEval_x64.iso''
        then Inr \<lparr>resp_url = u, status = 200\<rparr>
        else Inl (HTTPError 404)),
      decimal_width = (\<lambda>s. 0)\<rparr>"

text \<open>A network where the API endpoints answer 404, the second guessed URL answers 204
  (No Content) and the last guessed URL answers 200.\<close>

definition web_204 :: web where
  "web_204 =
     \<lparr>urlopen_get = (\<lambda>u. Inl (HTTPError 404)),
      urlopen_head = (\<lambda>u.
        if u = ''https://software-static.download.prss.microsoft.com/sg/download/888969d5-f34g-4e03-ac9d-1f9786c66749/Win10_22H2_EnterpriseEval_x64.iso''
        then Inr \<lparr>resp_url = u, status = 204\<rparr>
        else if u = ''https://software.download.prss.microsoft.com/sg/SERVER_EVAL_x64FRE_en-us.iso''
        then Inr \<lparr>resp_url = u, status = 200\<rparr>
        else Inl (HTTPError 404)),
      decimal_width = (\<lambda>s. 0)\<rparr>"

text \<open>A network where the third endpoint answers with a page that holds two link
  identifiers and no ISO URL; the first identifier leads to a page, the second to an
  ISO.\<close>

definition linkid_body :: bytes where
  "linkid_body = ''<a href=/fwlink/?LinkID=111>a</a><a href=/fwlink/?LinkID=2195280>b</a>''"

definition web_linkid :: web where
  "web_linkid =
     \<lparr>urlopen_get = (\<lambda>u.
        if u = ''https://www.microsoft.com/en-us/software-download/windows10ISO/ajax''
        then Inr linkid_body else Inl Timeout),
      urlopen_head = (\<lambda>u.
        if u = ''https://go.microsoft.com/fwlink/?LinkID=111''
        then Inr \<lparr>resp_url = ''https://www.microsoft.com/en-us/evalcenter'', status = 200\<rparr>
        else if u = ''https://go.microsoft.com/fwlink/?LinkID=2195280''
        then Inr \<lparr>resp_url = ''https://software-static.download.prss.microsoft.com/dbazure/eval.iso'',
                  status = 200\<rparr>
        else Inl (HTTPError 404)),
      decimal_width = (\<lambda>s. 0)\<rparr>"


section \<open>Searching a buffer\<close>

lemma occurs_at_append: "occurs_at sub (pre @ sub @ rest) (length pre)"
  by (simp add: occurs_at_def)

lemma find_at_first:
  "k \<le> length s \<Longrightarrow> occurs_at sub s k \<Longrightarrow> \<forall>k'<k. \<not> occurs_at sub s k' \<Longrightarrow>
   find_at sub s i = Some (i + k)"
proof (induction s arbitrary: i k)
  case Nil
  then show ?case by (auto simp: occurs_at_def)
next
  case (Cons x xs)
  show ?case
  proof (cases k)
    case 0
    with Cons.prems show ?thesis by (simp add: occurs_at_def)
  next
    case (Suc k')
    from Cons.prems(3) Suc have nohead: "take (length sub) (x # xs) \<noteq> sub"
      by (auto simp: occurs_at_def)
    from Cons.prems Suc have a: "k' \<le> length xs" by simp
    from Cons.prems Suc have b: "occurs_at sub xs k'" by (simp add: occurs_at_def)
    have c: "\<forall>j<k'. \<not> occurs_at sub xs j"
    proof (intro allI impI)
      fix j assume "j < k'"
      then have "Suc j < k" using Suc by simp
      with Cons.prems(3) have "\<not> occurs_at sub (x # xs) (Suc j)" by blast
      then show "\<not> occurs_at sub xs j" by (simp add: occurs_at_def)
    qed
    from Cons.IH[OF a b c, of "Suc i"] nohead Suc show ?thesis by simp
  qed
qed

lemma find_at_complete:
  assumes "k \<le> length s" and "occurs_at sub s k"
  shows "\<exists>j\<le>k. find_at sub s i = Some (i + j) \<and> occurs_at sub s j
            \<and> (\<forall>k'<j. \<not> occurs_at sub s k')"
proof -
  define j where "j = (LEAST n. occurs_at sub s n)"
  have occ: "occurs_at sub s j"
    unfolding j_def using assms(2) by (rule LeastI)
  have le: "j \<le> k"
    unfolding j_def using assms(2) by (rule Least_le)
  have least: "\<forall>k'<j. \<not> occurs_at sub s k'"
    unfolding j_def using not_less_Least by blast
  from le assms(1) have "j \<le> length s" by simp
  then have "find_at sub s i = Some (i + j)"
    using occ least by (rule find_at_first)
  with le occ least show ?thesis by blast
qed

text \<open>\<^verbatim>\<open>s.find(sub, start)\<close> finds the first occurrence from \<open>start\<close> on, whenever there is
  one.\<close>

lemma py_find_complete:
  assumes "start \<le> k" and "k \<le> length s" and "occurs_at sub s k"
  shows "\<exists>j. start \<le> j \<and> j \<le> k \<and> py_find s sub start = Some j \<and> occurs_at sub s j
            \<and> (\<forall>k'. start \<le> k' \<and> k' < j \<longrightarrow> \<not> occurs_at sub s k')"
proof -
  have "k - start \<le> length (drop start s)"
    using assms by simp
  moreover have "occurs_at sub (drop start s) (k - start)"
    using assms by (simp add: occurs_at_def)
  ultimately obtain d where d: "d \<le> k - start"
      "find_at sub (drop start s) start = Some (start + d)"
      "occurs_at sub (drop start s) d"
      "\<forall>k'<d. \<not> occurs_at sub (drop start s) k'"
    using find_at_complete by blast
  have shift: "occurs_at sub (drop start s) n = occurs_at sub s (start + n)" for n
    by (simp add: occurs_at_def add.commute)
  have "\<forall>k'. start \<le> k' \<and> k' < start + d \<longrightarrow> \<not> occurs_at sub s k'"
  proof (intro allI impI)
    fix k' assume h: "start \<le> k' \<and> k' < start + d"
    then have "k' - start < d" by arith
    with d(4) have "\<not> occurs_at sub (drop start s) (k' - start)" by blast
    with h show "\<not> occurs_at sub s k'" by (simp add: shift)
  qed
  moreover have "py_find s sub start = Some (start + d)"
    using d(2) assms by (simp add: py_find_def)
  moreover have "occurs_at sub s (start + d)"
    using d(3) by (simp add: shift)
  moreover have "start + d \<le> k"
    using d(1) assms(1) by arith
  ultimately show ?thesis by (intro exI[of _ "start + d"]) simp
qed

section \<open>The raw scan (claim C8)\<close>

text \<open>
  Claim C8, as amended. Let the buffer contain \<^verbatim>\<open><?xml\<close> and, later, \<^verbatim>\<open></Products>\<close>. Let
  \<open>i\<close> be the index of the first \<^verbatim>\<open><?xml\<close> and \<open>j\<close> the index of the first \<^verbatim>\<open></Products>\<close>
  from \<open>i\<close> on. Then the raw scan reaches its \<^verbatim>\<open>return\<close> statement with the slice from \<open>i\<close>
  to the end of that end marker, \<open>j + 11\<close>: it returns exactly that slice, as text, when
  the slice is well-formed UTF-8, and raises \<^verbatim>\<open>UnicodeDecodeError\<close> when it is not. Nothing
  before \<open>i\<close> or after \<open>j + 11\<close> is part of the result.
\<close>

theorem raw_scan_first_markers:
  fixes buf a b c :: bytes
  assumes "buf = a @ ''<?xml'' @ b @ ''</Products>'' @ c"
  shows "\<exists>i j. occurs_at ''<?xml'' buf i \<and> (\<forall>k<i. \<not> occurs_at ''<?xml'' buf k)
           \<and> i \<le> j \<and> occurs_at ''</Products>'' buf j
           \<and> (\<forall>k. i \<le> k \<and> k < j \<longrightarrow> \<not> occurs_at ''</Products>'' buf k)
           \<and> raw_scan buf =
               Some (if valid_utf8 (slice buf i (j + 11)) then Inr (slice buf i (j + 11))
                     else Inl UnicodeDecodeError)"
proof -
  have len: "length ''</Products>'' = 11"
    by simp
  define pre2 where "pre2 = a @ ''<?xml'' @ b"
  have buf1: "buf = a @ ''<?xml'' @ (b @ ''</Products>'' @ c)"
    by (simp add: assms)
  have buf2: "buf = pre2 @ ''</Products>'' @ c"
    by (simp add: assms pre2_def)
  have o1: "occurs_at ''<?xml'' buf (length a)"
    unfolding buf1 by (rule occurs_at_append)
  have la: "length a \<le> length buf"
    unfolding buf1 by simp
  from py_find_complete[OF le0 la o1]
  obtain i where i: "i \<le> length a" "py_find buf ''<?xml'' 0 = Some i" "occurs_at ''<?xml'' buf i"
      "\<forall>k'. 0 \<le> k' \<and> k' < i \<longrightarrow> \<not> occurs_at ''<?xml'' buf k'"
    by blast
  have o2: "occurs_at ''</Products>'' buf (length pre2)"
    unfolding buf2 by (rule occurs_at_append)
  have ip: "i \<le> length pre2"
    using i(1) by (simp add: pre2_def)
  have lp: "length pre2 \<le> length buf"
    unfolding buf2 by simp
  from py_find_complete[OF ip lp o2]
  obtain j where j: "i \<le> j" "py_find buf ''</Products>'' i = Some j"
      "occurs_at ''</Products>'' buf j"
      "\<forall>k'. i \<le> k' \<and> k' < j \<longrightarrow> \<not> occurs_at ''</Products>'' buf k'"
    by blast
  have "raw_scan buf = Some (decode_utf8 (slice buf i (j + 11)))"
    unfolding raw_scan_def by (simp only: i(2) j(2) option.case Let_def len)
  then have "raw_scan buf =
               Some (if valid_utf8 (slice buf i (j + 11)) then Inr (slice buf i (j + 11))
                     else Inl UnicodeDecodeError)"
    by (simp add: decode_utf8_def)
  with i(3,4) j(1,3,4) show ?thesis by blast
qed

text \<open>The amended claim at a buffer with leading bytes, a well-formed document and a second
  end marker in the trailing bytes: the result stops at the first end marker.\<close>

theorem raw_scan_first_markers_witness:
  "raw_scan (''MSCF'' @ ''<?xml'' @ ''?><Products>x'' @ ''</Products>'' @ ''tail</Products>'')
     = Some (Inr ''<?xml?><Products>x</Products>'')"
  using raw_scan_first_markers
          [of "''MSCF'' @ ''<?xml'' @ ''?><Products>x'' @ ''</Products>'' @ ''tail</Products>''"
              "''MSCF''" "''?><Products>x''" "''tail</Products>''"]
  by (simp add: raw_scan_def py_find_def slice_def decode_utf8_def valid_utf8.simps
        utf8_seq_len_def byte_def cont_def)

text \<open>Claim C8 as stated fails: the buffer \<^verbatim>\<open>b'<?xml\xff</Products>'\<close> contains both markers
  in order, and the raw scan raises \<^verbatim>\<open>UnicodeDecodeError\<close> instead of returning the
  substring.\<close>

theorem raw_scan_undecodable_counterexample:
  "raw_scan (''<?xml'' @ [CHR 0xFF] @ ''</Products>'') = Some (Inl UnicodeDecodeError)"
  by (simp add: raw_scan_def py_find_def slice_def decode_utf8_def valid_utf8.simps
        utf8_seq_len_def byte_def cont_def)


section \<open>The float division\<close>

lemma bit_length_bounds:
  "0 < n \<Longrightarrow> 2 ^ (bit_length n - 1) \<le> n \<and> n < 2 ^ bit_length n"
proof (induction n rule: bit_length.induct)
  case (1 n)
  show ?case
  proof (cases "n = 1")
    case True
    then show ?thesis by (simp add: bit_length.simps[of 1] bit_length.simps[of 0])
  next
    case False
    with "1.prems" have pos: "0 < n div 2" by simp
    from "1.prems" have "\<not> n \<le> 0" by simp
    from "1.IH"[OF this pos] have ih: "2 ^ (bit_length (n div 2) - 1) \<le> n div 2"
        "n div 2 < 2 ^ bit_length (n div 2)" by simp_all
    have bl: "bit_length n = Suc (bit_length (n div 2))"
      using "1.prems" by (simp add: bit_length.simps[of n])
    have pos_bl: "0 < bit_length (n div 2)"
      using pos by (simp add: bit_length.simps[of "n div 2"])
    then have "(2::int) ^ bit_length (n div 2) = 2 * 2 ^ (bit_length (n div 2) - 1)"
      by (cases "bit_length (n div 2)") simp_all
    with ih have "2 ^ bit_length (n div 2) \<le> n" "n < 2 * 2 ^ bit_length (n div 2)"
      by linarith+
    then show ?thesis by (simp add: bl)
  qed
qed

lemma binary_exponent_le:
  assumes "a \<noteq> 0" and "b \<noteq> 0"
  shows "(2::rat) powi (binary_exponent a b) \<le> \<bar>of_int a / of_int b\<bar>"
proof -
  define la where "la = bit_length \<bar>a\<bar>"
  define lb where "lb = bit_length \<bar>b\<bar>"
  have a: "2 ^ (la - 1) \<le> \<bar>a\<bar>" and b: "\<bar>b\<bar> < 2 ^ lb"
    using bit_length_bounds[of "\<bar>a\<bar>"] bit_length_bounds[of "\<bar>b\<bar>"] assms
    by (simp_all add: la_def lb_def)
  have la_pos: "0 < la"
    using assms(1) by (simp add: la_def bit_length.simps[of "\<bar>a\<bar>"])
  have ra: "(2::rat) ^ (la - 1) \<le> of_int \<bar>a\<bar>"
    using a by (metis of_int_le_iff of_int_numeral of_int_power)
  have rb: "(of_int \<bar>b\<bar> :: rat) \<le> 2 ^ lb"
    using b by (metis less_imp_le of_int_le_iff of_int_numeral of_int_power)
  have bpos: "(0::rat) < of_int \<bar>b\<bar>"
    using assms(2) by simp
  have ex: "int la - int lb - 1 = int (la - 1) - int lb"
    using la_pos by (cases la) simp_all
  have "(2::rat) powi (int la - int lb - 1) = 2 powi (int (la - 1) - int lb)"
    by (simp only: ex)
  also have "\<dots> = 2 ^ (la - 1) / 2 ^ lb"
    by (simp add: power_int_diff)
  also have "\<dots> \<le> of_int \<bar>a\<bar> / of_int \<bar>b\<bar>"
    using ra rb bpos by (intro frac_le) simp_all
  also have "\<dots> = \<bar>of_int a / of_int b :: rat\<bar>"
    by simp
  finally have low: "(2::rat) powi (int la - int lb - 1) \<le> \<bar>of_int a / of_int b\<bar>" .
  show ?thesis
    unfolding binary_exponent_def Let_def la_def[symmetric] lb_def[symmetric]
    using low by simp
qed

lemma round_half_even_of_int: "round_half_even (of_int z) = z"
  by (simp add: round_half_even_def)

text \<open>Below \<open>2 ^ 53\<close> the division by \<open>1024 ^ 3\<close> is exact.\<close>

lemma truediv_exact:
  assumes "\<bar>n\<bar> < 2 ^ 53"
  shows "py_truediv n (1024 ^ 3) = Inr (of_int n / 1024 ^ 3)"
proof (cases "n = 0")
  case True
  then show ?thesis by (simp add: py_truediv_def)
next
  case False
  define b :: int where "b = 1024 ^ 3"
  define e where "e = binary_exponent n b"
  define m where "m = max e (- 1022)"
  have b30: "b = 2 ^ 30" by (simp add: b_def)
  have q: "(of_int n / of_int b :: rat) = of_int n / 2 ^ 30"
    by (simp add: b30)
  have "(2::rat) powi e \<le> \<bar>of_int n / of_int b\<bar>"
    unfolding e_def using False by (intro binary_exponent_le) (simp_all add: b_def)
  also have "\<dots> = of_int \<bar>n\<bar> / 2 ^ 30"
    by (simp add: q)
  also have "\<dots> < 2 ^ 53 / 2 ^ 30"
  proof -
    have "(of_int \<bar>n\<bar> :: rat) < of_int (2 ^ 53)"
      using assms by (simp only: of_int_less_iff)
    then show ?thesis by (simp add: divide_strict_right_mono)
  qed
  also have "\<dots> = 2 powi 23"
    by simp
  finally have "e < 23"
    by (intro power_int_le_imp_less_exp[of "2::rat"]) simp_all
  then have m22: "m \<le> 22"
    by (simp add: m_def)
  define k where "k = nat (22 - m)"
  have k: "int k = 22 - m"
    using m22 by (simp add: k_def)
  have ulp: "(2::rat) powi (m - 52) = 1 / (2 ^ 30 * 2 ^ k)"
  proof -
    have "m - 52 = - int (k + 30)" using k by simp
    then have "(2::rat) powi (m - 52) = 2 powi (- int (k + 30))" by (simp only:)
    also have "\<dots> = 1 / 2 ^ (k + 30)"
      by (simp only: power_int_minus_divide power_int_of_nat)
    finally show ?thesis by (simp add: power_add mult.commute)
  qed
  define qq :: rat where "qq = of_int n / of_int b"
  define u :: rat where "u = 2 powi (m - 52)"
  have quot: "qq / u = of_int (n * 2 ^ k)"
    by (simp add: qq_def u_def q ulp)
  have rescaled: "of_int (n * 2 ^ k) * u = of_int n / 1024 ^ 3"
    by (simp add: u_def ulp)
  have r: "of_int (round_half_even (qq / u)) * u = of_int n / 1024 ^ 3"
    by (simp only: quot round_half_even_of_int rescaled)
  have small: "\<not> (2::rat) ^ 1024 \<le> \<bar>of_int n / 1024 ^ 3\<bar>"
  proof -
    have "\<bar>of_int n / 1024 ^ 3 :: rat\<bar> = of_int \<bar>n\<bar> / 1024 ^ 3" by simp
    also have "\<dots> \<le> of_int \<bar>n\<bar>" by (simp add: divide_le_eq)
    also have "\<dots> < of_int (2 ^ 53)" using assms by (simp only: of_int_less_iff)
    also have "\<dots> \<le> (2::rat) ^ 1024" by simp
    finally show ?thesis by simp
  qed
  have nz: "(b = 0) = False" "(n = 0) = False"
    using False by (simp_all add: b_def)
  have "py_truediv n b =
          (if 2 ^ 1024 \<le> \<bar>of_int (round_half_even (qq / u)) * u\<bar> then Inl OverflowError
           else Inr (of_int (round_half_even (qq / u)) * u))"
    unfolding py_truediv_def Let_def nz if_False qq_def u_def m_def e_def ..
  then have "py_truediv n b = Inr (of_int n / 1024 ^ 3)"
    by (simp only: r small if_False)
  then show ?thesis by (simp only: b_def)
qed

lemma binary_exponent_gt:
  assumes "a \<noteq> 0" and "b \<noteq> 0"
  shows "\<bar>of_int a / of_int b\<bar> < (2::rat) powi (binary_exponent a b + 1)"
proof -
  define la where "la = bit_length \<bar>a\<bar>"
  define lb where "lb = bit_length \<bar>b\<bar>"
  have a: "\<bar>a\<bar> < 2 ^ la" and b: "2 ^ (lb - 1) \<le> \<bar>b\<bar>"
    using bit_length_bounds[of "\<bar>a\<bar>"] bit_length_bounds[of "\<bar>b\<bar>"] assms
    by (simp_all add: la_def lb_def)
  have lb_pos: "0 < lb"
    using assms(2) by (simp add: lb_def bit_length.simps[of "\<bar>b\<bar>"])
  have ra: "(of_int \<bar>a\<bar> :: rat) < 2 ^ la"
    using a by (metis of_int_less_iff of_int_numeral of_int_power)
  have rb: "(2::rat) ^ (lb - 1) \<le> of_int \<bar>b\<bar>"
    using b by (metis of_int_le_iff of_int_numeral of_int_power)
  have "\<bar>of_int a / of_int b :: rat\<bar> = of_int \<bar>a\<bar> / of_int \<bar>b\<bar>"
    by simp
  also have "\<dots> < 2 ^ la / 2 ^ (lb - 1)"
    using ra rb by (intro frac_less) simp_all
  also have "\<dots> = 2 powi (int la - int (lb - 1))"
    by (simp add: power_int_diff)
  also have "int la - int (lb - 1) = int la - int lb + 1"
    using lb_pos by (cases lb) simp_all
  finally have up: "\<bar>of_int a / of_int b :: rat\<bar> < 2 powi (int la - int lb + 1)" .
  show ?thesis
    unfolding binary_exponent_def Let_def la_def[symmetric] lb_def[symmetric]
    using up by (simp add: not_le)
qed

lemma round_half_even_ge_floor: "\<lfloor>q\<rfloor> \<le> round_half_even q"
  by (simp add: round_half_even_def Let_def)

text \<open>From \<open>2 ^ 1054\<close> on the division by \<open>1024 ^ 3\<close> raises \<^verbatim>\<open>OverflowError\<close>.\<close>

lemma truediv_overflow:
  assumes "2 ^ 1054 \<le> n"
  shows "py_truediv n (1024 ^ 3) = Inl OverflowError"
proof -
  define b :: int where "b = 1024 ^ 3"
  define e where "e = binary_exponent n b"
  define qq :: rat where "qq = of_int n / of_int b"
  define u :: rat where "u = 2 powi (e - 52)"
  have npos: "0 < n"
    using assms by (rule less_le_trans[rotated]) simp
  have nz: "(b = 0) = False" "(n = 0) = False"
    using npos by (simp_all add: b_def)
  have qpos: "0 < qq"
    using npos by (simp add: qq_def b_def)
  have big: "(2::rat) ^ 1024 \<le> qq"
  proof -
    have "(of_int (2 ^ 1054) :: rat) \<le> of_int n"
      using assms by (simp only: of_int_le_iff)
    then have "(2::rat) ^ 1054 / 2 ^ 30 \<le> of_int n / 2 ^ 30"
      by (simp add: divide_right_mono)
    then show ?thesis by (simp add: qq_def b_def)
  qed
  have ne: "n \<noteq> 0" "b \<noteq> 0"
    using npos by (simp_all add: b_def)
  have absq: "\<bar>of_int n / of_int b :: rat\<bar> = qq"
    unfolding qq_def[symmetric] using qpos by simp
  have lo: "(2::rat) powi e \<le> qq"
    using binary_exponent_le[OF ne] by (simp only: e_def absq)
  have hi: "qq < (2::rat) powi (e + 1)"
    using binary_exponent_gt[OF ne] by (simp only: e_def absq)
  have e1024: "1024 \<le> e"
  proof (rule ccontr)
    assume "\<not> 1024 \<le> e"
    then have "e + 1 \<le> 1024" by simp
    then have "(2::rat) powi (e + 1) \<le> 2 powi 1024"
      by (intro power_int_increasing) simp_all
    with hi big show False by simp
  qed
  then have m: "max e (- 1022) = e" by simp
  have upos: "0 < u" by (simp add: u_def)
  have s1: "(2::rat) powi 52 * 2 powi (e - 52) = 2 powi (52 + (e - 52))"
    by (rule power_int_add[symmetric]) simp
  have s2: "52 + (e - 52) = e"
    by simp
  have s3: "(2::rat) ^ 52 = 2 powi 52"
    by (rule power_int_numeral[symmetric])
  have ue: "(2::rat) ^ 52 * u = 2 powi e"
    unfolding u_def by (simp only: s3 s1 s2)
  have "(2::rat) ^ 52 \<le> qq / u"
    using lo upos ue by (simp add: le_divide_eq)
  then have "(of_int (2 ^ 52) :: rat) \<le> qq / u" by simp
  then have "2 ^ 52 \<le> \<lfloor>qq / u\<rfloor>" by (simp only: le_floor_iff)
  with round_half_even_ge_floor[of "qq / u"] have "2 ^ 52 \<le> round_half_even (qq / u)"
    by linarith
  then have "(of_int (2 ^ 52) :: rat) \<le> of_int (round_half_even (qq / u))"
    by (simp only: of_int_le_iff)
  then have "(2::rat) ^ 52 * u \<le> of_int (round_half_even (qq / u)) * u"
    using upos by (simp add: mult_right_mono)
  with ue have "(2::rat) powi e \<le> of_int (round_half_even (qq / u)) * u" by simp
  moreover have "(2::rat) powi 1024 \<le> 2 powi e"
    using e1024 by (intro power_int_increasing) simp_all
  ultimately have "(2::rat) ^ 1024 \<le> of_int (round_half_even (qq / u)) * u" by simp
  then have over: "(2::rat) ^ 1024 \<le> \<bar>of_int (round_half_even (qq / u)) * u\<bar>" by linarith
  have "py_truediv n b =
          (if 2 ^ 1024 \<le> \<bar>of_int (round_half_even (qq / u)) * u\<bar> then Inl OverflowError
           else Inr (of_int (round_half_even (qq / u)) * u))"
    unfolding py_truediv_def Let_def nz if_False qq_def u_def e_def[symmetric] m ..
  then have "py_truediv n b = Inl OverflowError"
    by (simp only: over if_True)
  then show ?thesis by (simp only: b_def)
qed

lemma truediv_exact_numeral:
  "\<bar>n\<bar> < 2 ^ 53 \<Longrightarrow> py_truediv n 1073741824 = Inr (of_int n / 1073741824)"
  using truediv_exact[of n] by simp

text \<open>Above \<open>2 ^ 53\<close> the quotient is rounded: \<^verbatim>\<open>(2**53 + 1) / 1024**3\<close> is \<^verbatim>\<open>8388608.0\<close>.\<close>

lemma truediv_rounds: "py_truediv (2 ^ 53 + 1) (1024 ^ 3) = Inr 8388608"
  by code_simp

section \<open>Unfolding the examples\<close>

lemmas esd_defs = main_def check_tools_def download_file_def cab_path_def cab_url_def
  extract_and_parse_def extract_xml_from_cab_def run_and_read_def except_tool_errors_def
  read_text_def raw_scan_def py_find_def slice_def decode_utf8_def convert_def
  findall_def find_child_def is_enterprise_n_def has_text_def make_found_def
  truediv_exact_numeral

lemmas utf8_defs = valid_utf8.simps utf8_seq_len_def byte_def cont_def

lemmas fixture_defs = example_host_def host_7z_only_def host_no_extractors_def example_files_def
  files_with_esd_def scenario_xml_def scenario_catalog_def duplicate_catalog_def
  professional_catalog_def no_path_catalog_def no_path_entry_def file_entry_def example_int_def

section \<open>The extraction chain and the tool check (claim C1)\<close>

lemma run_and_read_raises:
  "snd (run_and_read r d) = Inl e \<Longrightarrow>
   e = FileNotFoundError \<or> e = CalledProcessError \<or> e = UnicodeDecodeError"
  by (auto simp: run_and_read_def read_text_def Let_def
        split: tool_run.splits option.splits if_splits)

lemma tool_block_no_ValueError:
  "except_tool_errors (snd (run_and_read r d)) \<noteq> Inl ValueError"
  using run_and_read_raises[of r d]
  by (auto simp: except_tool_errors_def split: sum.splits)

lemma raw_scan_no_ValueError: "raw_scan data \<noteq> Some (Inl ValueError)"
  by (simp add: raw_scan_def decode_utf8_def Let_def split: option.splits)

lemma not_installed_block:
  "except_tool_errors (snd (run_and_read NotInstalled d)) = Inr None"
  by (simp add: run_and_read_def except_tool_errors_def)

text \<open>The function with its local bindings spelled out.\<close>

lemma extract_unfold:
  "extract_xml_from_cab h fs p =
     (case except_tool_errors (snd (run_and_read (run_tool h Cabextract (fs p)) None)) of
        Inl e \<Rightarrow> ([Cabextract], Inl e)
      | Inr (Some xml) \<Rightarrow> ([Cabextract], Inr xml)
      | Inr None \<Rightarrow>
     (case except_tool_errors (snd (run_and_read (run_tool h Tar (fs p))
               (fst (run_and_read (run_tool h Cabextract (fs p)) None)))) of
        Inl e \<Rightarrow> ([Cabextract, Tar], Inl e)
      | Inr (Some xml) \<Rightarrow> ([Cabextract, Tar], Inr xml)
      | Inr None \<Rightarrow>
     (case except_tool_errors (snd (run_and_read (run_tool h SevenZip (fs p))
               (fst (run_and_read (run_tool h Tar (fs p))
                  (fst (run_and_read (run_tool h Cabextract (fs p)) None)))))) of
        Inl e \<Rightarrow> ([Cabextract, Tar, SevenZip], Inl e)
      | Inr (Some xml) \<Rightarrow> ([Cabextract, Tar, SevenZip], Inr xml)
      | Inr None \<Rightarrow>
          (case fs p of
             None \<Rightarrow> ([Cabextract, Tar, SevenZip, RawScan], Inl FileNotFoundError)
           | Some cab_data \<Rightarrow>
               (case raw_scan cab_data of
                  Some r \<Rightarrow> ([Cabextract, Tar, SevenZip, RawScan], r)
                | None \<Rightarrow> ([Cabextract, Tar, SevenZip, RawScan], Inl ValueError))))))"
  unfolding extract_xml_from_cab_def Let_def split_beta ..

text \<open>
  Claim C1, as amended. (1) When \<^verbatim>\<open>which\<close> finds neither \<^verbatim>\<open>cabextract\<close> nor \<^verbatim>\<open>tar\<close>, the
  tool check at the start of \<^verbatim>\<open>main\<close> exits with status 1: nothing has been downloaded and
  no extraction method has been attempted. (2) In \<^verbatim>\<open>extract_xml_from_cab\<close> itself a tool
  that is not installed is skipped: when the first two are not installed the third is
  invoked. (3) The final \<^verbatim>\<open>ValueError\<close> ("could not extract") is raised only after all four
  methods have been attempted, in order.
\<close>

theorem tool_check_gate_and_extraction_chain:
  "(\<not> which h ''cabextract'' \<and> \<not> which h ''tar'' \<longrightarrow>
       main h fs
         = (Some (SystemExit 1), \<lparr>files = fs, attempts = [], downloads = [], resolved = None\<rparr>))
   \<and> (run_tool h Cabextract (fs p) = NotInstalled \<and> run_tool h Tar (fs p) = NotInstalled \<longrightarrow>
       take 3 (fst (extract_xml_from_cab h fs p)) = [Cabextract, Tar, SevenZip])
   \<and> (snd (extract_xml_from_cab h fs p) = Inl ValueError \<longrightarrow>
       fst (extract_xml_from_cab h fs p) = [Cabextract, Tar, SevenZip, RawScan])"
proof (intro conjI impI)
  assume "\<not> which h ''cabextract'' \<and> \<not> which h ''tar''"
  then show "main h fs
      = (Some (SystemExit 1), \<lparr>files = fs, attempts = [], downloads = [], resolved = None\<rparr>)"
    by (simp add: main_def check_tools_def)
next
  assume "run_tool h Cabextract (fs p) = NotInstalled \<and> run_tool h Tar (fs p) = NotInstalled"
  then show "take 3 (fst (extract_xml_from_cab h fs p)) = [Cabextract, Tar, SevenZip]"
    by (simp add: extract_unfold not_installed_block split: sum.splits option.splits)
next
  assume "snd (extract_xml_from_cab h fs p) = Inl ValueError"
  then show "fst (extract_xml_from_cab h fs p) = [Cabextract, Tar, SevenZip, RawScan]"
    using tool_block_no_ValueError raw_scan_no_ValueError
    by (simp add: extract_unfold split: sum.splits option.splits)
qed

text \<open>The amended claim on a host without any extraction tool: \<^verbatim>\<open>main\<close> stops at the tool
  check; the extraction function, run on an archive without the markers, goes through all
  four methods before it raises.\<close>

theorem tool_check_gate_and_extraction_chain_witness:
  "\<not> which host_no_extractors ''cabextract'' \<and> \<not> which host_no_extractors ''tar''
   \<and> main host_no_extractors example_files
       = (Some (SystemExit 1),
          \<lparr>files = example_files, attempts = [], downloads = [], resolved = None\<rparr>)
   \<and> run_tool host_no_extractors Cabextract (example_files ''/tmp/a.cab'') = NotInstalled
   \<and> run_tool host_no_extractors Tar (example_files ''/tmp/a.cab'') = NotInstalled
   \<and> extract_xml_from_cab host_no_extractors example_files ''/tmp/a.cab''
       = ([Cabextract, Tar, SevenZip, RawScan], Inl ValueError)"
  using tool_check_gate_and_extraction_chain[of host_no_extractors example_files "''/tmp/a.cab''"]
  by (simp add: esd_defs fixture_defs Let_def)

text \<open>Claim C1 as stated fails. On a host without \<^verbatim>\<open>cabextract\<close> and \<^verbatim>\<open>tar\<close> but with \<^verbatim>\<open>7z\<close>
  (and the converter), \<^verbatim>\<open>main\<close> exits with status 1 at the tool check, no method attempted,
  although the third method would have extracted the document.\<close>

theorem tool_check_exits_before_third_method_counterexample:
  "main host_7z_only Map.empty
     = (Some (SystemExit 1),
        \<lparr>files = Map.empty, attempts = [], downloads = [], resolved = None\<rparr>)
   \<and> extract_xml_from_cab host_7z_only example_files ''/tmp/a.cab''
     = ([Cabextract, Tar, SevenZip], Inr scenario_xml)"
  by (simp add: esd_defs fixture_defs utf8_defs Let_def)

section \<open>The matching loop (claims C7, C2, C3)\<close>

lemma find_loop_first_match:
  "\<forall>x\<in>set pre. \<not> is_enterprise_n x \<Longrightarrow> is_enterprise_n e \<Longrightarrow>
   find_loop h (pre @ e # post)
     = (case make_found h e of Inl x \<Rightarrow> Inl x | Inr f \<Rightarrow> Inr (Some f))"
  by (induction pre) simp_all

lemma find_loop_no_match:
  "\<forall>x\<in>set es. \<not> is_enterprise_n x \<Longrightarrow> find_loop h es = Inr None"
  by (induction es) simp_all

text \<open>An entry that lacks one of the three fields of the query is passed over.\<close>

lemma missing_match_field_skipped:
  "find_child e ''LanguageCode'' = None \<or> find_child e ''Edition'' = None
     \<or> find_child e ''Architecture'' = None \<Longrightarrow>
   find_loop h (e # rest) = find_loop h rest"
  by (auto simp: is_enterprise_n_def has_text_def)

subsection \<open>Document order\<close>

text \<open>The script's test is the specification's match against the script's query.\<close>

lemma find_as_filter:
  "find P xs = (case filter P xs of [] \<Rightarrow> None | x # _ \<Rightarrow> Some x)"
  by (induction xs) simp_all

lemma field_find_child:
  "field e t = (case find_child e t of None \<Rightarrow> None | Some c \<Rightarrow> text_of c)"
  by (simp add: field_def find_child_def find_as_filter split: list.splits)

lemma is_enterprise_n_query: "is_enterprise_n e = matches_query script_query e"
  by (auto simp: is_enterprise_n_def matches_query_def script_query_def has_text_def
        field_find_child Let_def split: option.splits)

text \<open>Every element \<^verbatim>\<open>iter\<close> lists sits at a position of the tree.\<close>

lemma iter_subtree: "x \<in> set (iter e) \<Longrightarrow> \<exists>p. subtree_at e p = Some x"
proof (induction e arbitrary: x)
  case (Element t y cs)
  from Element.prems have "x = Element t y cs \<or> (\<exists>c\<in>set cs. x \<in> set (iter c))"
    by auto
  then show ?case
  proof
    assume "x = Element t y cs"
    then have "subtree_at (Element t y cs) [] = Some x" by simp
    then show ?thesis by blast
  next
    assume "\<exists>c\<in>set cs. x \<in> set (iter c)"
    then obtain c where c: "c \<in> set cs" "x \<in> set (iter c)" by blast
    from Element.IH[OF c] obtain p where p: "subtree_at c p = Some x" by blast
    from c(1) obtain i where i: "i < length cs" "cs ! i = c"
      by (auto simp: in_set_conv_nth)
    then have "subtree_at (Element t y cs) (i # p) = Some x"
      using p by simp
    then show ?thesis by blast
  qed
qed

text \<open>
  In a list of sibling trees, let \<open>e\<close> be the first element in document order with the
  property \<open>Q\<close>. Then the concatenated \<^verbatim>\<open>iter\<close> lists reach \<open>e\<close> before any other element with
  \<open>Q\<close>. The first assumption is this fact for each of the trees.
\<close>

lemma forest_first:
  assumes IH: "\<And>c p. c \<in> set cs \<Longrightarrow> subtree_at c p = Some e \<Longrightarrow>
              (\<forall>p' e'. subtree_at c p' = Some e' \<longrightarrow> Q e' \<longrightarrow> p' = p \<or> before_in_document p p')
              \<Longrightarrow> \<exists>pre post. iter c = pre @ e # post \<and> (\<forall>x\<in>set pre. \<not> Q x)"
      and i: "i < length cs"
      and sub: "subtree_at (cs ! i) p = Some e"
      and first: "\<forall>j p' e'. j < length cs \<longrightarrow> subtree_at (cs ! j) p' = Some e' \<longrightarrow> Q e' \<longrightarrow>
                    j # p' = i # p \<or> before_in_document (i # p) (j # p')"
  shows "\<exists>pre post. concat (map iter cs) = pre @ e # post \<and> (\<forall>x\<in>set pre. \<not> Q x)"
proof -
  have split: "cs = take i cs @ cs ! i # drop (Suc i) cs"
    using i by (simp add: id_take_nth_drop)
  have inner: "\<forall>p' e'. subtree_at (cs ! i) p' = Some e' \<longrightarrow> Q e' \<longrightarrow>
                 p' = p \<or> before_in_document p p'"
  proof (intro allI impI)
    fix p' e' assume "subtree_at (cs ! i) p' = Some e'" "Q e'"
    with first i have "i # p' = i # p \<or> before_in_document (i # p) (i # p')" by blast
    then show "p' = p \<or> before_in_document p p'"
      by (simp add: before_in_document_def)
  qed
  have "cs ! i \<in> set cs" using i by simp
  from IH[OF this sub inner] obtain pre' post'
    where it: "iter (cs ! i) = pre' @ e # post'" and pre': "\<forall>x\<in>set pre'. \<not> Q x"
    by blast
  have earlier: "\<forall>x\<in>set (concat (map iter (take i cs))). \<not> Q x"
  proof
    fix x assume "x \<in> set (concat (map iter (take i cs)))"
    then obtain c where c: "c \<in> set (take i cs)" "x \<in> set (iter c)" by auto
    from c(1) obtain j where j: "j < i" "j < length cs" "c = cs ! j"
      using i by (auto simp: in_set_conv_nth)
    from iter_subtree[OF c(2)] obtain p' where p': "subtree_at (cs ! j) p' = Some x"
      using j(3) by blast
    show "\<not> Q x"
    proof
      assume "Q x"
      with first j(2) p' have "j # p' = i # p \<or> before_in_document (i # p) (j # p')" by blast
      with j(1) show False by (simp add: before_in_document_def)
    qed
  qed
  have "concat (map iter cs)
          = concat (map iter (take i cs)) @ iter (cs ! i) @ concat (map iter (drop (Suc i) cs))"
    by (subst split) (simp del: append_take_drop_id)
  then have "concat (map iter cs)
          = (concat (map iter (take i cs)) @ pre') @ e # (post' @ concat (map iter (drop (Suc i) cs)))"
    by (simp add: it)
  moreover have "\<forall>x\<in>set (concat (map iter (take i cs)) @ pre'). \<not> Q x"
    using earlier pre' by auto
  ultimately show ?thesis by blast
qed

lemma element_first:
  "subtree_at e0 p = Some e \<Longrightarrow>
   (\<forall>p' e'. subtree_at e0 p' = Some e' \<longrightarrow> Q e' \<longrightarrow> p' = p \<or> before_in_document p p') \<Longrightarrow>
   \<exists>pre post. iter e0 = pre @ e # post \<and> (\<forall>x\<in>set pre. \<not> Q x)"
proof (induction e0 arbitrary: p)
  case (Element t y cs)
  show ?case
  proof (cases p)
    case Nil
    with Element.prems(1) have "iter (Element t y cs) = [] @ e # concat (map iter cs)"
      by auto
    then show ?thesis by (metis empty_iff list.set(1))
  next
    case (Cons i p')
    with Element.prems(1) have i: "i < length cs" and sub: "subtree_at (cs ! i) p' = Some e"
      by (simp_all split: if_splits)
    have first: "\<forall>j q e'. j < length cs \<longrightarrow> subtree_at (cs ! j) q = Some e' \<longrightarrow> Q e' \<longrightarrow>
                    j # q = i # p' \<or> before_in_document (i # p') (j # q)"
    proof (intro allI impI)
      fix j q e' assume "j < length cs" "subtree_at (cs ! j) q = Some e'" "Q e'"
      then have "subtree_at (Element t y cs) (j # q) = Some e'" by simp
      with Element.prems(2) \<open>Q e'\<close> Cons show "j # q = i # p' \<or> before_in_document (i # p') (j # q)"
        by blast
    qed
    have "\<exists>pre post. concat (map iter cs) = pre @ e # post \<and> (\<forall>x\<in>set pre. \<not> Q x)"
      using Element.IH i sub first by (rule forest_first)
    then obtain pre post where c: "concat (map iter cs) = pre @ e # post" "\<forall>x\<in>set pre. \<not> Q x"
      by blast
    have "\<not> Q (Element t y cs)"
    proof
      assume "Q (Element t y cs)"
      moreover have "subtree_at (Element t y cs) [] = Some (Element t y cs)" by simp
      ultimately have "[] = p \<or> before_in_document p []"
        using Element.prems(2) by blast
      with Cons show False by (simp add: before_in_document_def)
    qed
    with c have "iter (Element t y cs) = (Element t y cs # pre) @ e # post
                 \<and> (\<forall>x\<in>set (Element t y cs # pre). \<not> Q x)"
      by simp
    then show ?thesis by blast
  qed
qed

lemma descendants_first:
  assumes "entry_for_query q root_elem p e"
      and "\<forall>p' e'. entry_for_query q root_elem p' e' \<longrightarrow> p' = p \<or> before_in_document p p'"
  shows "\<exists>pre post. concat (map iter (children root_elem)) = pre @ e # post
           \<and> (\<forall>x\<in>set pre. \<not> (tag x = ''File'' \<and> matches_query q x))"
proof -
  from assms(1) obtain i p' where p: "p = i # p'"
    by (cases p) (auto simp: entry_for_query_def)
  from assms(1) p have i: "i < length (children root_elem)"
      and sub: "subtree_at (children root_elem ! i) p' = Some e"
    by (simp_all add: entry_for_query_def split: if_splits)
  let ?Q = "\<lambda>x. tag x = ''File'' \<and> matches_query q x"
  have first: "\<forall>j r e'. j < length (children root_elem) \<longrightarrow>
                 subtree_at (children root_elem ! j) r = Some e' \<longrightarrow> ?Q e' \<longrightarrow>
                 j # r = i # p' \<or> before_in_document (i # p') (j # r)"
  proof (intro allI impI)
    fix j r e'
    assume "j < length (children root_elem)" "subtree_at (children root_elem ! j) r = Some e'" "?Q e'"
    then have "entry_for_query q root_elem (j # r) e'"
      by (simp add: entry_for_query_def)
    with assms(2) p show "j # r = i # p' \<or> before_in_document (i # p') (j # r)" by blast
  qed
  show ?thesis
    using element_first[where Q = ?Q] i sub first by (rule forest_first)
qed

lemma leaf_subtree: "subtree_at (Element t x []) p = Some e \<Longrightarrow> e = Element t x []"
  by (cases p) simp_all

lemma file_entry_subtree:
  assumes "subtree_at (file_entry l ed a u s) p = Some e" and "tag e = ''File''"
  shows "p = []"
proof (cases p)
  case Nil
  then show ?thesis .
next
  case (Cons i r)
  with assms(1) have i: "i < 5"
    by (simp add: file_entry_def split: if_splits)
  then consider "i = 0" | "i = 1" | "i = 2" | "i = 3" | "i = 4" by linarith
  then show ?thesis
    using assms Cons by cases (auto simp: file_entry_def dest: leaf_subtree)
qed

lemma duplicate_first:
  "\<forall>p' e'. entry_for_query script_query duplicate_catalog p' e' \<longrightarrow>
      p' = [2] \<or> before_in_document [2] p'"
proof (intro allI impI)
  fix p' e' assume a: "entry_for_query script_query duplicate_catalog p' e'"
  then obtain i r where p': "p' = i # r"
    by (cases p') (auto simp: entry_for_query_def)
  from a p' have i: "i < 4"
    by (simp add: entry_for_query_def duplicate_catalog_def split: if_splits)
  from a have t: "tag e' = ''File''" and m: "matches_query script_query e'"
    by (simp_all add: entry_for_query_def)
  from i consider "i = 0" | "i = 1" | "i = 2" | "i = 3" by linarith
  then show "p' = [2] \<or> before_in_document [2] p'"
  proof cases
    case 1
    with a p' have s: "subtree_at (file_entry ''en-us'' ''Enterprise'' ''x64'' ''https://example/other.esd'' ''1073741824'') r = Some e'"
      by (simp add: entry_for_query_def duplicate_catalog_def)
    from file_entry_subtree[OF s t] s m show ?thesis
      by (auto simp: matches_query_def script_query_def field_def file_entry_def)
  next
    case 2
    with a p' have s: "subtree_at (file_entry ''EN-US'' ''EnterpriseN'' ''x64'' ''https://example/upper.esd'' ''1073741824'') r = Some e'"
      by (simp add: entry_for_query_def duplicate_catalog_def)
    from file_entry_subtree[OF s t] s m show ?thesis
      by (auto simp: matches_query_def script_query_def field_def file_entry_def)
  next
    case 3
    with a p' have s: "subtree_at (file_entry ''en-us'' ''EnterpriseN'' ''x64'' ''https://example/first.esd'' ''4294967296'') r = Some e'"
      by (simp add: entry_for_query_def duplicate_catalog_def)
    from file_entry_subtree[OF s t] p' 3 show ?thesis by simp
  next
    case 4
    with p' show ?thesis by (simp add: before_in_document_def)
  qed
qed

subsection \<open>Claims C7 and C2\<close>

text \<open>
  Claim C7, as amended. The query is the one the script has: en-us, EnterpriseN, x64. Let
  \<open>e\<close> be the first \<^verbatim>\<open>File\<close> entry of the catalog, in document order, whose language code,
  edition and architecture equal that query (as strings, so case matters), and let \<open>e\<close>
  have a \<^verbatim>\<open>FilePath\<close> and a \<^verbatim>\<open>Size\<close> whose text is an integer below \<open>2 ^ 53\<close> in absolute
  value. Then the search returns the URL of \<open>e\<close> (with its scaled size), whatever entries
  follow \<open>e\<close>: an entry with the same three fields and another URL later in the document
  is never the one returned.
\<close>

theorem first_match_in_document_order:
  assumes "entry_for_query script_query root_elem p e"
      and "\<forall>p' e'. entry_for_query script_query root_elem p' e' \<longrightarrow>
              p' = p \<or> before_in_document p p'"
      and "filter (\<lambda>c. tag c = ''FilePath'') (children e) \<noteq> []"
      and "field e ''Size'' = Some t"
      and "py_int h t = Some n"
      and "\<bar>n\<bar> < 2 ^ 53"
  shows "find_loop h (findall root_elem ''File'')
           = Inr (Some \<lparr>url = field e ''FilePath'', size_gb = of_int n / 1024 ^ 3\<rparr>)"
proof -
  from descendants_first[OF assms(1,2)] obtain pre post
    where d: "concat (map iter (children root_elem)) = pre @ e # post"
      and pre: "\<forall>x\<in>set pre. \<not> (tag x = ''File'' \<and> matches_query script_query x)"
    by blast
  have e: "tag e = ''File''" "is_enterprise_n e"
    using assms(1) by (simp_all add: entry_for_query_def is_enterprise_n_query)
  have fa: "findall root_elem ''File''
              = filter (\<lambda>x. tag x = ''File'') pre @ e # filter (\<lambda>x. tag x = ''File'') post"
    by (simp add: findall_def d e(1))
  have no: "\<forall>x\<in>set (filter (\<lambda>x. tag x = ''File'') pre). \<not> is_enterprise_n x"
    using pre by (simp add: is_enterprise_n_query)
  obtain fp rest where "filter (\<lambda>c. tag c = ''FilePath'') (children e) = fp # rest"
    using assms(3) by (cases "filter (\<lambda>c. tag c = ''FilePath'') (children e)") auto
  then have fp: "find_child e ''FilePath'' = Some fp" "field e ''FilePath'' = text_of fp"
    by (simp_all add: find_child_def field_def find_as_filter)
  obtain sz where sz: "find_child e ''Size'' = Some sz" "text_of sz = Some t"
    using assms(4) by (auto simp: field_find_child split: option.splits)
  have "make_found h e = Inr \<lparr>url = field e ''FilePath'', size_gb = of_int n / 1024 ^ 3\<rparr>"
    by (simp add: make_found_def fp sz assms(5) truediv_exact_numeral[OF assms(6)])
  moreover have "find_loop h (findall root_elem ''File'')
      = (case make_found h e of Inl x \<Rightarrow> Inl x | Inr f \<Rightarrow> Inr (Some f))"
    unfolding fa using no e(2) by (rule find_loop_first_match)
  ultimately show ?thesis by simp
qed


text \<open>On the catalog with two records for the query, at the positions \<open>[2]\<close> and \<open>[3]\<close>,
  the URL of the earlier one is returned; the record with \<^verbatim>\<open>EN-US\<close> before them is not a
  match.\<close>

theorem first_match_in_document_order_witness:
  "entry_for_query script_query duplicate_catalog [2]
     (file_entry ''en-us'' ''EnterpriseN'' ''x64'' ''https://example/first.esd'' ''4294967296'')
   \<and> entry_for_query script_query duplicate_catalog [3]
     (file_entry ''en-us'' ''EnterpriseN'' ''x64'' ''https://example/second.esd'' ''1073741824'')
   \<and> find_loop example_host (findall duplicate_catalog ''File'')
     = Inr (Some \<lparr>url = Some ''https://example/first.esd'', size_gb = 4\<rparr>)"
  using first_match_in_document_order[of duplicate_catalog "[2]"
      "file_entry ''en-us'' ''EnterpriseN'' ''x64'' ''https://example/first.esd'' ''4294967296''"
      "''4294967296''" example_host 4294967296, OF _ duplicate_first]
  by (simp add: entry_for_query_def duplicate_catalog_def file_entry_def matches_query_def
        script_query_def field_def example_host_def example_int_def)


text \<open>Claim C7 as stated fails: the resolver serves one query only. For the query en-us,
  Professional, x64 the first entry of the catalog equals the query, and what the resolver
  returns is the URL of the Enterprise N entry after it.\<close>

theorem other_query_not_served_counterexample:
  "entry_for_query (''en-us'', ''Professional'', ''x64'') professional_catalog [0]
     (file_entry ''en-us'' ''Professional'' ''x64'' ''https://example/professional.esd'' ''4294967296'')
   \<and> find_loop example_host (findall professional_catalog ''File'')
     = Inr (Some \<lparr>url = Some ''https://example/enterprise-n.esd'', size_gb = 4\<rparr>)"
  by (simp add: entry_for_query_def professional_catalog_def file_entry_def matches_query_def
        field_def findall_def is_enterprise_n_def find_child_def has_text_def make_found_def
        example_host_def example_int_def truediv_exact_numeral)

text \<open>
  Claim C2, as amended. When the first record for the query has a \<^verbatim>\<open>FilePath\<close> and a
  \<^verbatim>\<open>Size\<close> whose text is an integer \<open>n\<close> below \<open>2 ^ 53\<close> in absolute value, the resolver's
  result holds the text of \<^verbatim>\<open>FilePath\<close> and the size divided by \<open>1024 ^ 3\<close>: the scaling to
  gibibytes is done where the record is read, and the number of bytes is not kept.
\<close>

theorem found_size_is_scaled:
  assumes "findall root_elem ''File'' = pre @ e # post"
      and "\<forall>x\<in>set pre. \<not> is_enterprise_n x"
      and "is_enterprise_n e"
      and "find_child e ''FilePath'' = Some fp"
      and "find_child e ''Size'' = Some sz"
      and "text_of sz = Some t"
      and "py_int h t = Some n"
      and "\<bar>n\<bar> < 2 ^ 53"
  shows "find_loop h (findall root_elem ''File'')
           = Inr (Some \<lparr>url = text_of fp, size_gb = of_int n / 1024 ^ 3\<rparr>)"
proof -
  have "make_found h e = Inr \<lparr>url = text_of fp, size_gb = of_int n / 1024 ^ 3\<rparr>"
    using assms(4-7) by (simp add: make_found_def truediv_exact_numeral[OF assms(8)])
  moreover have "find_loop h (pre @ e # post)
      = (case make_found h e of Inl x \<Rightarrow> Inl x | Inr f \<Rightarrow> Inr (Some f))"
    using assms(2,3) by (rule find_loop_first_match)
  ultimately show ?thesis by (simp add: assms(1))
qed

text \<open>The amended claim on the catalog of the end-to-end scenario.\<close>

theorem found_size_is_scaled_witness:
  "find_loop example_host (findall scenario_catalog ''File'')
     = Inr (Some \<lparr>url = Some ''https://example/x.esd'', size_gb = 4\<rparr>)"
  using found_size_is_scaled[of scenario_catalog "[]"
      "file_entry ''en-us'' ''EnterpriseN'' ''x64'' ''https://example/x.esd'' ''4294967296''" "[]"
      "Element ''FilePath'' (Some ''https://example/x.esd'') []"
      "Element ''Size'' (Some ''4294967296'') []" "''4294967296''" example_host 4294967296]
  by (simp add: findall_def scenario_catalog_def file_entry_def is_enterprise_n_def find_child_def
        has_text_def example_host_def example_int_def)

text \<open>Claim C2 as stated fails on the end-to-end scenario: the whole run leaves the size
  \<open>4\<close> in \<open>found\<close>, not \<open>4294967296\<close>.\<close>

theorem scenario_size_is_four_counterexample:
  "resolved (snd (main example_host Map.empty))
     = Some \<lparr>url = Some ''https://example/x.esd'', size_gb = 4\<rparr>
   \<and> resolved (snd (main example_host Map.empty))
     \<noteq> Some \<lparr>url = Some ''https://example/x.esd'', size_gb = 4294967296\<rparr>"
  by (simp add: esd_defs fixture_defs utf8_defs Let_def)

text \<open>
  Claim C3 on a catalog whose first record equals the query in language, edition and
  architecture and has no \<^verbatim>\<open>FilePath\<close>, a complete record for the query following it: the
  search raises \<^verbatim>\<open>AttributeError\<close>, whatever the host, instead of passing over the first
  record and returning the second.
\<close>

theorem missing_FilePath_raises:
  "find_loop h (findall no_path_catalog ''File'') = Inl AttributeError"
  by (simp add: findall_def no_path_catalog_def no_path_entry_def file_entry_def
        is_enterprise_n_def find_child_def has_text_def make_found_def)

section \<open>Files and downloads along \<^verbatim>\<open>main\<close> (claims C4, C9)\<close>

lemma cab_path_not_esd: "cab_path h \<noteq> ''win.esd''"
proof
  assume "cab_path h = ''win.esd''"
  then have "last (cab_path h) = last ''win.esd''" by simp
  then show False by (simp add: cab_path_def)
qed

lemma cab_path_not_wim: "cab_path h \<noteq> ''win.wim''"
proof
  assume "cab_path h = ''win.wim''"
  then have "last (cab_path h) = last ''win.wim''" by simp
  then show False by (simp add: cab_path_def)
qed

lemma download_file_files:
  "download_file h u f s = (r, s') \<Longrightarrow> p \<noteq> f \<Longrightarrow> files s' p = files s p"
  by (auto simp: download_file_def Let_def split: option.splits fetch_result.splits)

lemma download_file_downloads:
  "download_file h u f s = (r, s') \<Longrightarrow> downloads s' = downloads s @ [(u, f)]"
  by (auto simp: download_file_def Let_def split: option.splits fetch_result.splits)

lemma download_file_fetched:
  "fetch h a = Fetched b \<Longrightarrow>
   download_file h (Some a) f s
     = (None, s\<lparr>downloads := downloads s @ [(Some a, f)], files := (files s)(f \<mapsto> b)\<rparr>)"
  by (simp add: download_file_def Let_def)

lemma extract_and_parse_files:
  "extract_and_parse h s = (r, s') \<Longrightarrow> files s' = (files s)(cab_path h := None)"
  by (auto simp: extract_and_parse_def Let_def split: prod.splits)

lemma extract_and_parse_downloads:
  "extract_and_parse h s = (r, s') \<Longrightarrow> downloads s' = downloads s"
  by (auto simp: extract_and_parse_def Let_def split: prod.splits)

lemma convert_files:
  "convert h s = (r, s') \<Longrightarrow> p \<noteq> ''win.wim'' \<Longrightarrow> files s' p = files s p"
  by (auto simp: convert_def split: tool_run.splits option.splits)

text \<open>The end of \<^verbatim>\<open>main\<close>, from the state \<open>s3\<close> left by the \<^verbatim>\<open>finally\<close> clause: it touches
  \<^verbatim>\<open>win.esd\<close> and \<^verbatim>\<open>win.wim\<close> only.\<close>

lemma after_search_files:
  assumes "(case (if files (s3\<lparr>resolved := Some f\<rparr>) ''win.esd'' \<noteq> None
                  then (None, s3\<lparr>resolved := Some f\<rparr>)
                  else download_file h (url f) ''win.esd'' (s3\<lparr>resolved := Some f\<rparr>)) of
             (Some e, s5) \<Rightarrow> (Some e, s5)
           | (None, s5) \<Rightarrow> convert h s5) = (r, s')"
      and "p \<noteq> ''win.esd''" and "p \<noteq> ''win.wim''"
  shows "files s' p = files s3 p"
  using assms
  by (auto split: if_splits prod.splits option.splits
        dest!: download_file_files[where p = p] convert_files[where p = p])

text \<open>The same end when \<^verbatim>\<open>win.esd\<close> is there: no download, the file kept.\<close>

lemma after_search_skips_download:
  assumes "(case (if files (s3\<lparr>resolved := Some f\<rparr>) ''win.esd'' \<noteq> None
                  then (None, s3\<lparr>resolved := Some f\<rparr>)
                  else download_file h (url f) ''win.esd'' (s3\<lparr>resolved := Some f\<rparr>)) of
             (Some e, s5) \<Rightarrow> (Some e, s5)
           | (None, s5) \<Rightarrow> convert h s5) = (r, s')"
      and "files s3 ''win.esd'' = Some content"
  shows "files s' ''win.esd'' = Some content \<and> downloads s' = downloads s3"
  using assms
  by (auto simp: convert_def split: tool_run.splits option.splits)


text \<open>
  Claim C4. Take a run of \<^verbatim>\<open>main\<close> that passed the tool check and received the whole
  catalog archive. When the run ends, by returning, by \<^verbatim>\<open>sys.exit\<close> or by an exception of
  the extraction, the parsing or anything after them, no file exists at the path of the
  temporary archive.
\<close>

theorem temporary_archive_removed:
  assumes "check_tools h = Inr v" and "fetch h cab_url = Fetched b"
  shows "files (snd (main h fs)) (cab_path h) = None"
proof -
  let ?s2 = "\<lparr>files = fs(cab_path h \<mapsto> b), attempts = [],
               downloads = [(Some cab_url, cab_path h)], resolved = None\<rparr>"
  obtain r s3 where ep: "extract_and_parse h ?s2 = (r, s3)"
    by (cases "extract_and_parse h ?s2")
  have gone: "files s3 (cab_path h) = None"
    using extract_and_parse_files[OF ep] by simp
  have m: "main h fs =
       (case r of
          Inl e \<Rightarrow> (Some e, s3)
        | Inr root_elem \<Rightarrow>
            (case find_loop h (findall root_elem ''File'') of
               Inl e \<Rightarrow> (Some e, s3)
             | Inr None \<Rightarrow> (Some (SystemExit 1), s3)
             | Inr (Some f) \<Rightarrow>
            (case (if files (s3\<lparr>resolved := Some f\<rparr>) ''win.esd'' \<noteq> None
                    then (None, s3\<lparr>resolved := Some f\<rparr>)
                    else download_file h (url f) ''win.esd'' (s3\<lparr>resolved := Some f\<rparr>)) of
               (Some e, s5) \<Rightarrow> (Some e, s5)
             | (None, s5) \<Rightarrow> convert h s5)))"
    unfolding main_def Let_def
    by (simp add: assms(1) download_file_fetched[OF assms(2)] ep)
  show ?thesis
  proof (cases r)
    case (Inl e)
    with m gone show ?thesis by simp
  next
    case (Inr root_elem)
    note r = this
    show ?thesis
    proof (cases "find_loop h (findall root_elem ''File'')")
      case (Inl e)
      with m r gone show ?thesis by simp
    next
      case (Inr fo)
      note fo = this
      show ?thesis
      proof (cases fo)
        case None
        with m r fo gone show ?thesis by simp
      next
        case (Some f)
        obtain r' s' where tail: "(case (if files (s3\<lparr>resolved := Some f\<rparr>) ''win.esd'' \<noteq> None
                    then (None, s3\<lparr>resolved := Some f\<rparr>)
                    else download_file h (url f) ''win.esd'' (s3\<lparr>resolved := Some f\<rparr>)) of
               (Some e, s5) \<Rightarrow> (Some e, s5)
             | (None, s5) \<Rightarrow> convert h s5) = (r', s')"
          by (cases "(case (if files (s3\<lparr>resolved := Some f\<rparr>) ''win.esd'' \<noteq> None
                    then (None, s3\<lparr>resolved := Some f\<rparr>)
                    else download_file h (url f) ''win.esd'' (s3\<lparr>resolved := Some f\<rparr>)) of
               (Some e, s5) \<Rightarrow> (Some e, s5)
             | (None, s5) \<Rightarrow> convert h s5)")
        have "files s' (cab_path h) = files s3 (cab_path h)"
          using tail cab_path_not_esd cab_path_not_wim by (rule after_search_files)
        moreover have "main h fs = (r', s')"
          using m r fo Some tail by simp
        ultimately show ?thesis using gone by simp
      qed
    qed
  qed
qed

text \<open>Claim C4 on the example host, started in an empty directory: the run goes through
  to the conversion and the temporary archive is gone.\<close>

theorem temporary_archive_removed_witness:
  "check_tools example_host = Inr True
   \<and> fetch example_host cab_url = Fetched ''MSCF-archive-bytes''
   \<and> fst (main example_host Map.empty) = None
   \<and> files (snd (main example_host Map.empty)) (cab_path example_host) = None"
  using temporary_archive_removed[of example_host True "''MSCF-archive-bytes''" Map.empty]
  by (simp add: esd_defs fixture_defs utf8_defs Let_def)

text \<open>
  Claim C9. If \<^verbatim>\<open>win.esd\<close> exists when the program starts, then at the end of the run,
  however it ends, \<^verbatim>\<open>win.esd\<close> holds the same bytes, and no call of \<^verbatim>\<open>download_file\<close> had
  \<^verbatim>\<open>win.esd\<close> as its target: the download of the image is skipped whatever URL and size
  the catalog gave.
\<close>

theorem existing_esd_is_kept:
  assumes "fs ''win.esd'' = Some content"
  shows "files (snd (main h fs)) ''win.esd'' = Some content
         \<and> (\<forall>d \<in> set (downloads (snd (main h fs))). snd d \<noteq> ''win.esd'')"
proof (cases "check_tools h")
  case (Inl e)
  then show ?thesis using assms by (simp add: main_def)
next
  case (Inr v)
  let ?s1 = "\<lparr>files = fs(cab_path h \<mapsto> []), attempts = [], downloads = [], resolved = None\<rparr>"
  obtain r2 s2 where dl: "download_file h (Some cab_url) (cab_path h) ?s1 = (r2, s2)"
    by (cases "download_file h (Some cab_url) (cab_path h) ?s1")
  have f2: "files s2 ''win.esd'' = Some content"
    using download_file_files[OF dl, of "''win.esd''"] cab_path_not_esd[of h] assms by auto
  have d2: "downloads s2 = [(Some cab_url, cab_path h)]"
    using download_file_downloads[OF dl] by simp
  have ok2: "\<forall>d \<in> set (downloads s2). snd d \<noteq> ''win.esd''"
    using d2 cab_path_not_esd[of h] by simp
  show ?thesis
  proof (cases r2)
    case (Some e)
    then have "main h fs = (Some e, s2)"
      by (simp add: main_def Inr dl)
    with f2 ok2 show ?thesis by simp
  next
    case None
    obtain r s3 where ep: "extract_and_parse h s2 = (r, s3)"
      by (cases "extract_and_parse h s2")
    have f3: "files s3 ''win.esd'' = Some content"
      using extract_and_parse_files[OF ep] f2 cab_path_not_esd[of h] by auto
    have ok3: "\<forall>d \<in> set (downloads s3). snd d \<noteq> ''win.esd''"
      using extract_and_parse_downloads[OF ep] ok2 by simp
    have m: "main h fs =
       (case r of
          Inl e \<Rightarrow> (Some e, s3)
        | Inr root_elem \<Rightarrow>
            (case find_loop h (findall root_elem ''File'') of
               Inl e \<Rightarrow> (Some e, s3)
             | Inr None \<Rightarrow> (Some (SystemExit 1), s3)
             | Inr (Some f) \<Rightarrow>
            (case (if files (s3\<lparr>resolved := Some f\<rparr>) ''win.esd'' \<noteq> None
                    then (None, s3\<lparr>resolved := Some f\<rparr>)
                    else download_file h (url f) ''win.esd'' (s3\<lparr>resolved := Some f\<rparr>)) of
               (Some e, s5) \<Rightarrow> (Some e, s5)
             | (None, s5) \<Rightarrow> convert h s5)))"
      unfolding main_def Let_def
      by (simp add: Inr dl None ep)
    show ?thesis
    proof (cases r)
      case (Inl e)
      with m f3 ok3 show ?thesis by simp
    next
      case (Inr root_elem)
      note r = this
      show ?thesis
      proof (cases "find_loop h (findall root_elem ''File'')")
        case (Inl e)
        with m r f3 ok3 show ?thesis by simp
      next
        case (Inr fo)
        note fo = this
        show ?thesis
        proof (cases fo)
          case None
          with m r fo f3 ok3 show ?thesis by simp
        next
          case (Some f)
          obtain r' s' where tail: "(case (if files (s3\<lparr>resolved := Some f\<rparr>) ''win.esd'' \<noteq> None
                    then (None, s3\<lparr>resolved := Some f\<rparr>)
                    else download_file h (url f) ''win.esd'' (s3\<lparr>resolved := Some f\<rparr>)) of
               (Some e, s5) \<Rightarrow> (Some e, s5)
             | (None, s5) \<Rightarrow> convert h s5) = (r', s')"
            by (cases "(case (if files (s3\<lparr>resolved := Some f\<rparr>) ''win.esd'' \<noteq> None
                    then (None, s3\<lparr>resolved := Some f\<rparr>)
                    else download_file h (url f) ''win.esd'' (s3\<lparr>resolved := Some f\<rparr>)) of
               (Some e, s5) \<Rightarrow> (Some e, s5)
             | (None, s5) \<Rightarrow> convert h s5)")
          have "files s' ''win.esd'' = Some content \<and> downloads s' = downloads s3"
            using tail f3 by (rule after_search_skips_download)
          moreover have "main h fs = (r', s')"
            using m r fo Some tail by simp
          ultimately show ?thesis using ok3 by simp
        qed
      qed
    qed
  qed
qed

text \<open>Claim C9 on the example host, started where an earlier \<^verbatim>\<open>win.esd\<close> lies: the only
  download is the catalog archive, and the earlier file is what the directory still holds
  (the catalog's URL would have delivered other bytes).\<close>

theorem existing_esd_is_kept_witness:
  "files_with_esd ''win.esd'' = Some ''earlier-esd-bytes''
   \<and> files (snd (main example_host files_with_esd)) ''win.esd'' = Some ''earlier-esd-bytes''
   \<and> downloads (snd (main example_host files_with_esd))
       = [(Some cab_url, ''/tmp/tmp3k2a9x.cab'')]"
  using existing_esd_is_kept[of files_with_esd "''earlier-esd-bytes''" example_host]
  by (simp add: esd_defs fixture_defs utf8_defs Let_def)


section \<open>The heuristic resolver: the loops as searches\<close>

lemmas iso_defs = get_windows_iso_url_def api_endpoints_def base_urls_def iso_names_def
  fallback_url_def check_endpoint_def check_linkid_def check_pattern_def except_all_def
  except_Exception_def fwlink_def decode_utf8_def

lemma find_append_first:
  "\<forall>x\<in>set pre. \<not> P x \<Longrightarrow> P u \<Longrightarrow> find P (pre @ u # post) = Some u"
  by (induction pre) simp_all

lemma find_append_cases:
  "find P (xs @ ys) = (case find P xs of Some x \<Rightarrow> Some x | None \<Rightarrow> find P ys)"
  by (induction xs) simp_all

lemma find_none: "\<forall>x\<in>set xs. \<not> P x \<Longrightarrow> find P xs = None"
  by (induction xs) simp_all

lemma try_pattern:
  "except_all (check_pattern w u) = (if answers_200 w u then Some u else None)"
  by (simp add: except_all_def check_pattern_def answers_200_def split: sum.splits)

lemma iso_loop_find:
  "iso_loop w base names = find (answers_200 w) (map (\<lambda>n. base @ n) names)"
  by (induction names) (simp_all add: try_pattern)

text \<open>The nested loops of Stage 2 visit the cartesian product, base path first, and stop at
  the first URL that answers with the status 200.\<close>

lemma base_loop_find:
  "base_loop w bases names = find (answers_200 w) (candidates bases names)"
  by (induction bases)
     (simp_all add: candidates_def iso_loop_find find_append_cases split: option.splits)

lemma candidates_not_fallback:
  "u \<in> set (candidates base_urls iso_names) \<Longrightarrow> u \<noteq> fallback_url"
  by (auto simp: candidates_def base_urls_def iso_names_def fallback_url_def)

lemma check_endpoint_raises: "check_endpoint w e = Inl x \<Longrightarrow> is_Exception x"
  by (auto simp: check_endpoint_def decode_utf8_def split: sum.splits list.splits if_splits)

lemma endpoint_handled: "except_Exception (check_endpoint w e) \<noteq> Inl x"
  using check_endpoint_raises[of w e]
  by (auto simp: except_Exception_def split: sum.splits)

text \<open>No exception leaves Stage 1.\<close>

lemma endpoint_loop_returns: "endpoint_loop w es \<noteq> Inl x"
  by (induction es) (auto simp: endpoint_handled split: sum.splits option.splits)

lemma endpoint_loop_all_fail:
  "\<forall>e\<in>set es. isl (urlopen_get w e) \<Longrightarrow> endpoint_loop w es = Inr None"
  by (induction es)
     (auto simp: except_Exception_def check_endpoint_def isl_def split: sum.splits)

lemma linkid_loop_first:
  "\<forall>x\<in>set ids1. except_all (check_linkid w x) = None \<Longrightarrow>
   except_all (check_linkid w linkid) = Some u \<Longrightarrow>
   linkid_loop w (ids1 @ linkid # ids2) = Some u"
  by (induction ids1) simp_all

lemma endpoint_loop_first:
  "\<forall>x\<in>set es1. except_Exception (check_endpoint w x) = Inr None \<Longrightarrow>
   except_Exception (check_endpoint w e) = Inr (Some u) \<Longrightarrow>
   endpoint_loop w (es1 @ e # es2) = Inr (Some u)"
  by (induction es1) simp_all

section \<open>Link identifiers are digits\<close>

lemma find_at_None_shift: "(find_at sub s i = None) = (find_at sub s j = None)"
  by (induction s arbitrary: i j) auto

lemma contains_Nil: "contains sub [] = (sub = [])"
  by (simp add: contains_def)

lemma contains_Cons:
  "contains sub (x # xs) = (take (length sub) (x # xs) = sub \<or> contains sub xs)"
  unfolding contains_def using find_at_None_shift[of sub xs "Suc 0" 0]
  by (cases "take (length sub) (x # xs) = sub") (simp_all del: not_None_eq)

lemma digitish_no_iso: "\<forall>c\<in>set s. digitish c \<Longrightarrow> \<not> contains ''.iso'' s"
  by (induction s) (auto simp: contains_Nil contains_Cons digitish_def byte_def)

lemma fwlink_no_iso: "\<forall>c\<in>set linkid. digitish c \<Longrightarrow> \<not> contains ''.iso'' (fwlink linkid)"
  using digitish_no_iso[of linkid] by (simp add: fwlink_def contains_Cons)

lemma digit_width_digitish:
  "digit_width nd s \<noteq> 0 \<Longrightarrow> \<forall>c\<in>set (take (digit_width nd s) s). digitish c"
  by (auto simp: digit_width_def digitish_def split: list.splits if_splits)

lemma digit_run_digitish: "\<forall>c\<in>set (digit_run nd s). digitish c"
proof (induction nd s rule: digit_run.induct)
  case (1 nd s)
  show ?case
  proof (cases "digit_width nd s = 0")
    case True
    then show ?thesis by (simp add: digit_run.simps[of nd s])
  next
    case False
    with "1.IH" digit_width_digitish[OF False] show ?thesis
      by (subst digit_run.simps) auto
  qed
qed

text \<open>Whatever \<^verbatim>\<open>findall\<close> reports was reported by the matcher somewhere in the text.\<close>

lemma findall_matches_from:
  "g \<in> set (findall_matches m s) \<Longrightarrow> \<exists>s' n. m s' = Some (n, g)"
proof (induction m s rule: findall_matches.induct)
  case (1 m s)
  show ?case
  proof (cases "s = []")
    case True
    with "1.prems" show ?thesis by (simp add: findall_matches.simps[of m "[]"])
  next
    case False
    note ne = this
    show ?thesis
    proof (cases "m s")
      case None
      with "1.prems" ne have "g \<in> set (findall_matches m (tl s))"
        by (simp add: findall_matches.simps[of m s])
      with "1.IH"(1)[OF ne None] show ?thesis .
    next
      case (Some p)
      obtain n g' where p: "p = (n, g')" by (cases p)
      with "1.prems" ne Some have "g = g' \<or> g \<in> set (findall_matches m (drop (max 1 n) s))"
        by (simp add: findall_matches.simps[of m s])
      then show ?thesis
      proof
        assume "g = g'"
        with Some p show ?thesis by blast
      next
        assume "g \<in> set (findall_matches m (drop (max 1 n) s))"
        with "1.IH"(2)[OF ne Some p[symmetric]] show ?thesis .
      qed
    qed
  qed
qed

lemma linkid_digitish:
  assumes "linkid \<in> set (findall_matches (match_linkid nd) content)"
  shows "\<forall>c\<in>set linkid. digitish c"
proof -
  from findall_matches_from[OF assms] obtain s' n where "match_linkid nd s' = Some (n, linkid)"
    by blast
  then have "linkid = digit_run nd (drop 7 s')"
    by (auto simp: match_linkid_def Let_def split: if_splits)
  then show ?thesis by (simp add: digit_run_digitish)
qed

section \<open>The heuristic resolver (claims C5, C6, C10)\<close>

text \<open>
  Claim C5. Whatever the probes do (answer, fail, time out, deliver bytes that are no
  UTF-8), \<^verbatim>\<open>get_windows_iso_url\<close> returns a URL and no exception leaves it. When the request
  to every API endpoint fails and the \<^verbatim>\<open>HEAD\<close> probe of every guessed URL fails, the URL
  returned is the hardcoded fallback link.
\<close>

theorem heuristic_resolver_total:
  "(\<exists>u. get_windows_iso_url w = Inr u)
   \<and> ((\<forall>e\<in>set api_endpoints. isl (urlopen_get w e))
        \<and> (\<forall>u\<in>set (candidates base_urls iso_names). isl (urlopen_head w u))
      \<longrightarrow> get_windows_iso_url w = Inr fallback_url)"
proof (intro conjI impI)
  show "\<exists>u. get_windows_iso_url w = Inr u"
    using endpoint_loop_returns[of w api_endpoints]
    by (auto simp: get_windows_iso_url_def split: sum.splits option.splits)
next
  assume h: "(\<forall>e\<in>set api_endpoints. isl (urlopen_get w e))
        \<and> (\<forall>u\<in>set (candidates base_urls iso_names). isl (urlopen_head w u))"
  then have s1: "endpoint_loop w api_endpoints = Inr None"
    by (simp add: endpoint_loop_all_fail)
  from h have "\<forall>u\<in>set (candidates base_urls iso_names). \<not> answers_200 w u"
    by (auto simp: answers_200_def isl_def)
  then have "base_loop w base_urls iso_names = None"
    unfolding base_loop_find by (rule find_none)
  with s1 show "get_windows_iso_url w = Inr fallback_url"
    by (simp add: get_windows_iso_url_def)
qed

text \<open>Claim C5 on the network where every request fails.\<close>

theorem heuristic_resolver_total_witness:
  "urlopen_get web_down (hd api_endpoints) = Inl Timeout
   \<and> urlopen_head web_down (hd (candidates base_urls iso_names)) = Inl URLError
   \<and> get_windows_iso_url web_down = Inr fallback_url"
  using heuristic_resolver_total[of web_down] by (simp add: web_down_def)

text \<open>
  Claim C6, as amended. Suppose Stage 1 ends without a URL. Let \<open>u\<close> be the first URL, in
  the cartesian product of base paths and file names taken base path first, whose \<^verbatim>\<open>HEAD\<close>
  probe answers with the status 200. Then the resolver returns \<open>u\<close>, which is not the
  fallback link: Stage 3 is not reached. A probe that answers with another status of the
  class 2xx is passed over like a failed one.
\<close>

theorem stage2_returns_first_200:
  assumes "endpoint_loop w api_endpoints = Inr None"
      and "candidates base_urls iso_names = pre @ u # post"
      and "\<forall>x\<in>set pre. \<not> answers_200 w x"
      and "answers_200 w u"
  shows "get_windows_iso_url w = Inr u \<and> u \<noteq> fallback_url"
proof -
  have "base_loop w base_urls iso_names = Some u"
    unfolding base_loop_find assms(2) using assms(3,4) by (rule find_append_first)
  then have "get_windows_iso_url w = Inr u"
    by (simp add: get_windows_iso_url_def assms(1))
  moreover have "u \<in> set (candidates base_urls iso_names)"
    by (simp add: assms(2))
  then have "u \<noteq> fallback_url"
    by (rule candidates_not_fallback)
  ultimately show ?thesis by simp
qed

text \<open>The amended claim on the network with two existing guessed URLs: the one under the
  second base path is returned, the one under the third base path comes later in the
  order.\<close>

theorem stage2_returns_first_200_witness:
  "endpoint_loop web_cdn api_endpoints = Inr None
   \<and> answers_200 web_cdn
        ''https://software-static.download.prss.microsoft.com/dbazure/Win10_22H2_English_x64.iso''
   \<and> answers_200 web_cdn
        ''https://software.download.prss.microsoft.com/sg/Win10_22H2_EnterpriseEval_x64.iso''
   \<and> get_windows_iso_url web_cdn
        = Inr ''https://software-static.download.prss.microsoft.com/dbazure/Win10_22H2_English_x64.iso''"
  using stage2_returns_first_200[of web_cdn "take 7 (candidates base_urls iso_names)"
        "''https://software-static.download.prss.microsoft.com/dbazure/Win10_22H2_English_x64.iso''"
        "drop 8 (candidates base_urls iso_names)"]
  by (simp add: web_cdn_def iso_defs candidates_def answers_200_def)

text \<open>Claim C6 as stated fails. Stage 1 yields nothing; the probe of the first guessed URL
  fails, the probe of the second answers 204, a success status, and the probe of the last
  answers 200. The first combination that reports a success status is the second, and the
  resolver returns the last.\<close>

theorem stage2_passes_over_204_counterexample:
  "endpoint_loop web_204 api_endpoints = Inr None
   \<and> take 2 (candidates base_urls iso_names)
       = [''https://software-static.download.prss.microsoft.com/sg/download/888969d5-f34g-4e03-ac9d-1f9786c66749/19045.2006.220908-0225.22h2_release_svc_refresh_CLIENTENTERPRISEEVAL_OEMRET_x64FRE_en-us.iso'',
          ''https://software-static.download.prss.microsoft.com/sg/download/888969d5-f34g-4e03-ac9d-1f9786c66749/Win10_22H2_EnterpriseEval_x64.iso'']
   \<and> reports_success web_204 (candidates base_urls iso_names ! 0) = False
   \<and> reports_success web_204 (candidates base_urls iso_names ! 1) = True
   \<and> get_windows_iso_url web_204
       = Inr ''https://software.download.prss.microsoft.com/sg/SERVER_EVAL_x64FRE_en-us.iso''"
  by (simp add: web_204_def iso_defs candidates_def reports_success_def success_status_def)

text \<open>
  Claim C10. Let the endpoints before \<open>e\<close> give nothing, and let the page of \<open>e\<close> hold no
  ISO URL but link identifiers. Let \<open>linkid\<close> be the first of them whose \<^verbatim>\<open>HEAD\<close> probe
  answers from a location that contains \<^verbatim>\<open>.iso\<close>. Then the resolver returns the redirect
  URL built from the identifier, \<^verbatim>\<open>https://go.microsoft.com/fwlink/?LinkID=\<close> followed by
  \<open>linkid\<close>, and this URL differs from the location the probe resolved to.
\<close>

theorem linkid_returns_redirect_url:
  assumes "api_endpoints = es1 @ e # es2"
      and "\<forall>x\<in>set es1. except_Exception (check_endpoint w x) = Inr None"
      and "urlopen_get w e = Inr body" and "valid_utf8 body"
      and "findall_matches match_iso_url body = []"
      and "findall_matches (match_linkid (decimal_width w)) body = ids1 @ linkid # ids2"
      and "\<forall>x\<in>set ids1. except_all (check_linkid w x) = None"
      and "urlopen_head w (fwlink linkid) = Inr resp"
      and "contains ''.iso'' (resp_url resp)"
  shows "get_windows_iso_url w = Inr (fwlink linkid) \<and> fwlink linkid \<noteq> resp_url resp"
proof -
  have "except_all (check_linkid w linkid) = Some (fwlink linkid)"
    using assms(8,9) by (simp add: except_all_def check_linkid_def)
  with assms(7) have "linkid_loop w (ids1 @ linkid # ids2) = Some (fwlink linkid)"
    by (rule linkid_loop_first)
  then have "check_endpoint w e = Inr (Some (fwlink linkid))"
    using assms(3-6) by (simp add: check_endpoint_def decode_utf8_def)
  then have "except_Exception (check_endpoint w e) = Inr (Some (fwlink linkid))"
    by (simp add: except_Exception_def)
  with assms(2) have "endpoint_loop w (es1 @ e # es2) = Inr (Some (fwlink linkid))"
    by (rule endpoint_loop_first)
  then have res: "get_windows_iso_url w = Inr (fwlink linkid)"
    by (simp add: get_windows_iso_url_def assms(1))
  have "linkid \<in> set (findall_matches (match_linkid (decimal_width w)) body)"
    by (simp add: assms(6))
  then have "\<not> contains ''.iso'' (fwlink linkid)"
    by (intro fwlink_no_iso linkid_digitish)
  with assms(9) have "fwlink linkid \<noteq> resp_url resp"
    by auto
  with res show ?thesis by simp
qed

text \<open>Claim C10 on the network whose third endpoint lists the identifiers 111 and
  2195280: the second resolves to an ISO, and the redirect URL of the second is returned,
  not the location of the ISO.\<close>

theorem linkid_returns_redirect_url_witness:
  "findall_matches (match_linkid (decimal_width web_linkid)) linkid_body = [''111'', ''2195280'']
   \<and> urlopen_head web_linkid (fwlink ''2195280'')
       = Inr \<lparr>resp_url = ''https://software-static.download.prss.microsoft.com/dbazure/eval.iso'',
              status = 200\<rparr>
   \<and> get_windows_iso_url web_linkid = Inr ''https://go.microsoft.com/fwlink/?LinkID=2195280''"
  using linkid_returns_redirect_url
     [of "[''https://www.microsoft.com/en-us/evalcenter/api/products/getproducts'',
      ''https://www.microsoft.com/en-us/api/controls/contentinclude/html?pageId=cfa0e580-a81e-4a4b-a846-7b21bf4e2e5b&host=www.microsoft.com&segments=software-download,windows10ISO'']"
      "''https://www.microsoft.com/en-us/software-download/windows10ISO/ajax''" "[]"
      web_linkid linkid_body "[''111'']" "''2195280''" "[]"
      "\<lparr>resp_url = ''https://software-static.download.prss.microsoft.com/dbazure/eval.iso'',
                  status = 200\<rparr>"]
  by (simp add: web_linkid_def linkid_body_def iso_defs utf8_defs findall_matches.simps
        match_iso_url_def match_linkid_def digit_run.simps digit_width_def contains_def Let_def)

end
